theory Spec2Isabelle
  imports Main "HOL-Library.Word"
begin

section \<open>Data model\<close>

text \<open>
  The repository \<open>compose/repository/module.go\<close> stores user-defined modules and their
  fields in two tables, \<open>compose_module\<close> and \<open>compose_module_field\<close>.  Identifiers are
  Go \<open>uint64\<close>; a \<open>time.Time\<close> is an abstract tick count, a \<open>*time.Time\<close> an optional one.
\<close>

type_synonym uint64 = "64 word"
type_synonym timestamp = nat

text \<open>
  Modelled from the spec: the struct \<open>types.Module\<close> (package \<open>compose/types\<close>), with the
  columns \<open>id, rel_namespace, handle, name, json, created_at, updated_at, deleted_at\<close>.
\<close>

record Module =
  mod_ID :: uint64
  mod_NamespaceID :: uint64
  mod_Handle :: string
  mod_Name :: string
  mod_Meta :: string
  mod_CreatedAt :: timestamp
  mod_UpdatedAt :: "timestamp option"
  mod_DeletedAt :: "timestamp option"

text \<open>
  Modelled from the spec: the struct \<open>types.ModuleField\<close>, with the columns
  \<open>id, rel_module, place, kind, name, label, options, is_private, is_required, is_visible,
  is_multi, default_value, created_at, updated_at, deleted_at\<close>.
\<close>

record ModuleField =
  ID :: uint64
  ModuleID :: uint64
  Place :: int
  Kind :: string
  Name :: string
  Label :: string
  Options :: string
  Private :: bool
  Required :: bool
  Visible :: bool
  Multi :: bool
  DefaultValue :: string
  CreatedAt :: timestamp
  UpdatedAt :: "timestamp option"
  DeletedAt :: "timestamp option"

text \<open>The zero value \<open>&types.Module{}\<close> that \<open>findOneBy\<close> hands to \<open>rh.FetchOne\<close>.\<close>

definition zero_Module :: Module where
  "zero_Module = \<lparr>mod_ID = 0, mod_NamespaceID = 0, mod_Handle = [], mod_Name = [],
     mod_Meta = [], mod_CreatedAt = 0, mod_UpdatedAt = None, mod_DeletedAt = None\<rparr>"

text \<open>
  Modelled from the spec: the filter object \<open>types.ModuleFilter\<close>.  \<open>IsReadable\<close> is the
  opaque authorization predicate, \<open>nil\<close> when absent.
\<close>

record ModuleFilter =
  flt_NamespaceID :: uint64
  flt_Query :: string
  flt_Name :: string
  flt_Handle :: string
  flt_Page :: nat
  flt_PerPage :: nat
  flt_Sort :: string
  flt_Count :: nat
  flt_IsReadable :: "(Module \<Rightarrow> bool) option"

datatype error =
    ErrModuleNotFound
  | ErrModuleNameNotUnique
  | ErrModuleHandleNotUnique
  | StorageFailure string
  | OrderSpecInvalid string
  | Wrap error string

section \<open>The environment: storage, identifier generator, clock\<close>

text \<open>
  Every statement sent to the database is recorded in \<open>trace\<close>, in the order of issue.
  Whether the \<open>n\<close>-th statement fails is read from \<open>faults\<close>; a failing statement changes
  no row.  \<open>factory.Sonyflake.NextID\<close> and the clock behind \<open>rh.SetCurrentTimeRounded\<close> are
  external: they are the sequences \<open>id_source\<close> and \<open>clock\<close>, read at the positions
  \<open>ids_drawn\<close> and \<open>clock_reads\<close>.
\<close>

datatype db_call =
    FetchOneCall
  | CountCall
  | FetchPagedCall nat nat
  | SelectFieldsCall "uint64 list"
  | DeleteFieldCall uint64 uint64
  | ReplaceFieldCall uint64
  | SoftDeleteModuleCall uint64 uint64

record world =
  module_rows :: "Module list"
  field_rows :: "ModuleField list"
  trace :: "db_call list"
  faults :: "nat \<Rightarrow> string option"
  id_source :: "nat \<Rightarrow> uint64"
  ids_drawn :: nat
  clock :: "nat \<Rightarrow> timestamp"
  clock_reads :: nat

definition issue :: "world \<Rightarrow> db_call \<Rightarrow> string option \<times> world" where
  "issue w c = (faults w (length (trace w)), w\<lparr>trace := trace w @ [c]\<rparr>)"

definition NextID :: "world \<Rightarrow> uint64 \<times> world" where
  "NextID w = (id_source w (ids_drawn w), w\<lparr>ids_drawn := Suc (ids_drawn w)\<rparr>)"

definition SetCurrentTimeRounded :: "world \<Rightarrow> timestamp \<times> world" where
  "SetCurrentTimeRounded w = (clock w (clock_reads w), w\<lparr>clock_reads := Suc (clock_reads w)\<rparr>)"

section \<open>Strings\<close>

text \<open>
  \<open>strings.ToLower\<close>, \<open>strings.TrimSpace\<close> and SQL's \<open>LOWER\<close> on ASCII text: the letters
  \<open>A\<close> to \<open>Z\<close> are mapped to \<open>a\<close> to \<open>z\<close>, the white space characters are tab, line feed,
  vertical tab, form feed, carriage return and space.
\<close>

definition lower_char :: "char \<Rightarrow> char" where
  "lower_char c =
     (let n = (of_char c :: nat) in if 65 \<le> n \<and> n \<le> 90 then char_of (n + 32) else c)"

definition ToLower :: "string \<Rightarrow> string" where
  "ToLower s = map lower_char s"

definition is_space :: "char \<Rightarrow> bool" where
  "is_space c = (let n = (of_char c :: nat) in (9 \<le> n \<and> n \<le> 13) \<or> n = 32)"

definition TrimSpace :: "string \<Rightarrow> string" where
  "TrimSpace s = rev (dropWhile is_space (rev (dropWhile is_space s)))"

fun split_on :: "char \<Rightarrow> string \<Rightarrow> string list" where
  "split_on sep [] = [[]]"
| "split_on sep (c # cs) =
     (if c = sep then [] # split_on sep cs
      else (case split_on sep cs of
              [] \<Rightarrow> [[c]]
            | p # ps \<Rightarrow> (c # p) # ps))"

text \<open>SQL \<open>LIKE\<close> with the wild cards \<open>%\<close> (any run) and \<open>_\<close> (any one character).\<close>

fun like :: "string \<Rightarrow> string \<Rightarrow> bool" where
  "like [] [] = True"
| "like [] (c # cs) = False"
| "like (p # ps) [] = (p = CHR ''%'' \<and> like ps [])"
| "like (p # ps) (c # cs) =
     (if p = CHR ''%'' then like ps (c # cs) \<or> like (p # ps) cs
      else (p = CHR ''_'' \<or> p = c) \<and> like ps cs)"

fun str_le :: "string \<Rightarrow> string \<Rightarrow> bool" where
  "str_le [] t = True"
| "str_le (c # cs) [] = False"
| "str_le (c # cs) (d # ds) =
     ((of_char c :: nat) < of_char d \<or> (c = d \<and> str_le cs ds))"

section \<open>Queries\<close>

text \<open>
  Modelled from the spec: the statement builder (\<open>squirrel.SelectBuilder\<close>) and the
  engine that runs it.  A query keeps the conjunction of its \<open>Where\<close> conditions and its
  \<open>OrderBy\<close> terms; a term is a column with a flag for descending order.  Column
  expressions are the strings the source passes to the builder.
\<close>

datatype sqlval = SqlNull | SqlInt nat | SqlText string

datatype cond =
    DeletedAtIsNull
  | Eq string sqlval
  | Like string string
  | Or cond cond
  | Sqlizer "Module \<Rightarrow> bool"

record query =
  wheres :: "cond list"
  order_by :: "(string \<times> bool) list"

definition opt_time :: "timestamp option \<Rightarrow> sqlval" where
  "opt_time t = (case t of None \<Rightarrow> SqlNull | Some n \<Rightarrow> SqlInt n)"

definition column_value :: "string \<Rightarrow> Module \<Rightarrow> sqlval" where
  "column_value c m =
     (if c = ''id'' then SqlInt (unat (mod_ID m))
      else if c = ''rel_namespace'' then SqlInt (unat (mod_NamespaceID m))
      else if c = ''handle'' then SqlText (mod_Handle m)
      else if c = ''name'' then SqlText (mod_Name m)
      else if c = ''json'' then SqlText (mod_Meta m)
      else if c = ''created_at'' then SqlInt (mod_CreatedAt m)
      else if c = ''updated_at'' then opt_time (mod_UpdatedAt m)
      else if c = ''deleted_at'' then opt_time (mod_DeletedAt m)
      else if c = ''LOWER(handle)'' then SqlText (ToLower (mod_Handle m))
      else if c = ''LOWER(name)'' then SqlText (ToLower (mod_Name m))
      else SqlNull)"

fun holds :: "cond \<Rightarrow> Module \<Rightarrow> bool" where
  "holds DeletedAtIsNull m = (mod_DeletedAt m = None)"
| "holds (Eq c v) m = (v \<noteq> SqlNull \<and> column_value c m = v)"
| "holds (Like c p) m = (case column_value c m of SqlText s \<Rightarrow> like p s | _ \<Rightarrow> False)"
| "holds (Or a b) m = (holds a m \<or> holds b m)"
| "holds (Sqlizer P) m = P m"

fun sql_less :: "sqlval \<Rightarrow> sqlval \<Rightarrow> bool" where
  "sql_less SqlNull SqlNull = False"
| "sql_less SqlNull v = True"
| "sql_less (SqlInt a) (SqlInt b) = (a < b)"
| "sql_less (SqlInt a) (SqlText t) = True"
| "sql_less (SqlText s) (SqlText t) = (s \<noteq> t \<and> str_le s t)"
| "sql_less v w = False"

fun row_le :: "(string \<times> bool) list \<Rightarrow> Module \<Rightarrow> Module \<Rightarrow> bool" where
  "row_le [] a b = True"
| "row_le ((c, desc) # ts) a b =
     (let x = column_value c a; y = column_value c b in
      if x = y then row_le ts a b
      else if desc then sql_less y x else sql_less x y)"

text \<open>Insertion sort by a comparison: the order in which the engine returns rows.\<close>

fun insort_by :: "('a \<Rightarrow> 'a \<Rightarrow> bool) \<Rightarrow> 'a \<Rightarrow> 'a list \<Rightarrow> 'a list" where
  "insort_by le x [] = [x]"
| "insort_by le x (y # ys) = (if le x y then x # y # ys else y # insort_by le x ys)"

definition sort_by :: "('a \<Rightarrow> 'a \<Rightarrow> bool) \<Rightarrow> 'a list \<Rightarrow> 'a list" where
  "sort_by le xs = foldr (insort_by le) xs []"

definition matching :: "query \<Rightarrow> Module list \<Rightarrow> Module list" where
  "matching q rows = [m \<leftarrow> rows. \<forall>c \<in> set (wheres q). holds c m]"

definition run_query :: "query \<Rightarrow> Module list \<Rightarrow> Module list" where
  "run_query q rows = sort_by (row_le (order_by q)) (matching q rows)"

definition Where :: "query \<Rightarrow> cond \<Rightarrow> query" where
  "Where q c = q\<lparr>wheres := wheres q @ [c]\<rparr>"

definition OrderBy :: "query \<Rightarrow> (string \<times> bool) list \<Rightarrow> query" where
  "OrderBy q ts = q\<lparr>order_by := order_by q @ ts\<rparr>"

text \<open>
  Modelled from the spec: \<open>rh.FetchOne\<close> (package \<open>pkg/rh\<close>) loads the first matching row
  into the given struct and leaves the struct untouched when no row matches; a storage
  failure is returned as it is.
\<close>

definition FetchOne :: "world \<Rightarrow> query \<Rightarrow> Module \<Rightarrow> (error option \<times> Module) \<times> world" where
  "FetchOne w q m =
     (case issue w FetchOneCall of
        (Some e, w') \<Rightarrow> ((Some (StorageFailure e), m), w')
      | (None, w') \<Rightarrow>
          ((None, (case run_query q (module_rows w) of [] \<Rightarrow> m | r # rs \<Rightarrow> r)), w'))"

text \<open>
  Modelled from the spec: \<open>rh.Count\<close> returns the number of rows the query matches, and
  \<open>rh.FetchPaged\<close> the rows of one page, pages being numbered from 1 and holding
  \<open>perPage\<close> rows each.
\<close>

definition Count :: "world \<Rightarrow> query \<Rightarrow> (nat \<times> error option) \<times> world" where
  "Count w q =
     (case issue w CountCall of
        (Some e, w') \<Rightarrow> ((0, Some (StorageFailure e)), w')
      | (None, w') \<Rightarrow> ((length (matching q (module_rows w)), None), w'))"

definition page_rows :: "nat \<Rightarrow> nat \<Rightarrow> 'a list \<Rightarrow> 'a list" where
  "page_rows page perPage xs = take perPage (drop ((page - 1) * perPage) xs)"

definition FetchPaged ::
  "world \<Rightarrow> query \<Rightarrow> nat \<Rightarrow> nat \<Rightarrow> (Module list \<times> error option) \<times> world" where
  "FetchPaged w q page perPage =
     (case issue w (FetchPagedCall page perPage) of
        (Some e, w') \<Rightarrow> (([], Some (StorageFailure e)), w')
      | (None, w') \<Rightarrow> ((page_rows page perPage (run_query q (module_rows w)), None), w'))"

section \<open>ModuleStore: lookups\<close>

definition columns :: "string list" where
  "columns = [''id'', ''rel_namespace'', ''handle'', ''name'', ''json'',
              ''created_at'', ''updated_at'', ''deleted_at'']"

text \<open>\<open>query()\<close>: select the columns from the module table where \<open>deleted_at IS NULL\<close>.\<close>

definition base_query :: query where
  "base_query = \<lparr>wheres = [DeletedAtIsNull], order_by = []\<rparr>"

text \<open>
  \<open>findOneBy\<close>: \<open>squirrel.Eq{field: value, "rel_namespace": namespaceID}\<close> is the
  conjunction of the two equalities.
\<close>

definition findOneBy :: "world \<Rightarrow> uint64 \<Rightarrow> string \<Rightarrow> sqlval \<Rightarrow> (error + Module) \<times> world" where
  "findOneBy w namespaceID field val =
     (let q = Where (Where base_query (Eq field val))
                (Eq ''rel_namespace'' (SqlInt (unat namespaceID)))
      in case FetchOne w q zero_Module of
           ((Some err, m), w') \<Rightarrow> (Inl err, w')
         | ((None, m), w') \<Rightarrow>
             if mod_ID m = 0 then (Inl ErrModuleNotFound, w') else (Inr m, w'))"

definition FindByID :: "world \<Rightarrow> uint64 \<Rightarrow> uint64 \<Rightarrow> (error + Module) \<times> world" where
  "FindByID w namespaceID moduleID = findOneBy w namespaceID ''id'' (SqlInt (unat moduleID))"

definition FindByHandle :: "world \<Rightarrow> uint64 \<Rightarrow> string \<Rightarrow> (error + Module) \<times> world" where
  "FindByHandle w namespaceID handle =
     findOneBy w namespaceID ''LOWER(handle)'' (SqlText (ToLower (TrimSpace handle)))"

definition FindByName :: "world \<Rightarrow> uint64 \<Rightarrow> string \<Rightarrow> (error + Module) \<times> world" where
  "FindByName w namespaceID name =
     findOneBy w namespaceID ''LOWER(name)'' (SqlText (ToLower (TrimSpace name)))"

text \<open>
  \<open>DeleteByID\<close>: \<open>UPDATE compose_module SET deleted_at = NOW() WHERE rel_namespace = ?
  AND id = ?\<close>.  \<open>NOW()\<close> is one reading of the clock.
\<close>

definition DeleteByID :: "world \<Rightarrow> uint64 \<Rightarrow> uint64 \<Rightarrow> error option \<times> world" where
  "DeleteByID w namespaceID moduleID =
     (case issue w (SoftDeleteModuleCall namespaceID moduleID) of
        (Some e, w') \<Rightarrow> (Some (StorageFailure e), w')
      | (None, w') \<Rightarrow>
          (case SetCurrentTimeRounded w' of
             (now, w'') \<Rightarrow>
               (None, w''\<lparr>module_rows :=
                  map (\<lambda>m. if mod_NamespaceID m = namespaceID \<and> mod_ID m = moduleID
                           then m\<lparr>mod_DeletedAt := Some now\<rparr> else m)
                      (module_rows w'')\<rparr>)))"

section \<open>ModuleStore: filtered lookup\<close>

text \<open>
  Modelled from the spec: \<open>rh.ParseOrder\<close> (package \<open>pkg/rh\<close>) splits a sort
  specification into (column, direction) pairs and rejects any column that is not in
  the list of valid columns.  The terms are separated by commas; a term is a column
  name, optionally followed by a direction, \<open>DESC\<close> meaning descending.  The empty
  specification has no terms.
\<close>

definition words_of :: "string \<Rightarrow> string list" where
  "words_of s = [w \<leftarrow> split_on CHR '' '' s. w \<noteq> []]"

definition parse_term :: "string \<Rightarrow> string \<times> bool" where
  "parse_term s =
     (case words_of (TrimSpace s) of
        [] \<Rightarrow> ([], False)
      | c # rest \<Rightarrow> (c, (case rest of [] \<Rightarrow> False | d # ds \<Rightarrow> ToLower d = ''desc'')))"

definition order_terms :: "string \<Rightarrow> (string \<times> bool) list" where
  "order_terms order = (if order = [] then [] else map parse_term (split_on CHR '','' order))"

fun check_terms :: "string list \<Rightarrow> (string \<times> bool) list \<Rightarrow> error + (string \<times> bool) list" where
  "check_terms valid [] = Inr []"
| "check_terms valid ((c, d) # ts) =
     (if c \<in> set valid
      then (case check_terms valid ts of Inl e \<Rightarrow> Inl e | Inr r \<Rightarrow> Inr ((c, d) # r))
      else Inl (OrderSpecInvalid c))"

definition ParseOrder :: "string \<Rightarrow> string list \<Rightarrow> error + (string \<times> bool) list" where
  "ParseOrder order valid = check_terms valid (order_terms order)"

text \<open>The conditions \<open>Find\<close> adds to \<open>query()\<close>, in the order of the source.\<close>

definition Find_query :: "ModuleFilter \<Rightarrow> ModuleFilter \<Rightarrow> query" where
  "Find_query flt f =
     (let q0 = base_query;
          q1 = (if flt_NamespaceID flt > 0
                then Where q0 (Eq ''rel_namespace'' (SqlInt (unat (flt_NamespaceID flt))))
                else q0);
          q2 = (if flt_Query f \<noteq> []
                then (let q = ''%'' @ ToLower (flt_Query f) @ ''%''
                      in Where q1 (Or (Like ''LOWER(name)'' q) (Like ''LOWER(handle)'' q)))
                else q1);
          q3 = (if flt_Name f \<noteq> []
                then Where q2 (Eq ''LOWER(name)'' (SqlText (ToLower (flt_Name f))))
                else q2);
          q4 = (if flt_Handle f \<noteq> []
                then Where q3 (Eq ''LOWER(handle)'' (SqlText (ToLower (flt_Handle f))))
                else q3)
      in (case flt_IsReadable f of None \<Rightarrow> q4 | Some P \<Rightarrow> Where q4 (Sqlizer P)))"

text \<open>The filter \<open>f\<close> that \<open>Find\<close> works on: an empty \<open>Sort\<close> becomes \<open>id ASC\<close>.\<close>

definition resolve_sort :: "ModuleFilter \<Rightarrow> ModuleFilter" where
  "resolve_sort flt = (if flt_Sort flt = [] then flt\<lparr>flt_Sort := ''id ASC''\<rparr> else flt)"

text \<open>\<open>Find\<close> returns the triple \<open>(set, f, err)\<close> of its named results.\<close>

definition Find ::
  "world \<Rightarrow> ModuleFilter \<Rightarrow> (Module list \<times> ModuleFilter \<times> error option) \<times> world" where
  "Find w flt =
     (let f = resolve_sort flt;
          query = Find_query flt f
      in case ParseOrder (flt_Sort f) columns of
           Inl err \<Rightarrow> (([], f, Some err), w)
         | Inr orderBy \<Rightarrow>
             (let query' = OrderBy query orderBy
              in case Count w query' of
                   ((n, err), w1) \<Rightarrow>
                     (let f' = f\<lparr>flt_Count := n\<rparr>
                      in if err \<noteq> None \<or> n = 0 then (([], f', err), w1)
                         else (case FetchPaged w1 query' (flt_Page f') (flt_PerPage f') of
                                 ((ms, err'), w2) \<Rightarrow> ((ms, f', err'), w2)))))"

section \<open>FieldReconciler\<close>

text \<open>
  \<open>FindFields\<close>: the active field rows of the given modules, ordered by
  \<open>rel_module, place\<close>; no statement is issued for an empty list of modules.
\<close>

definition field_le :: "ModuleField \<Rightarrow> ModuleField \<Rightarrow> bool" where
  "field_le a b = (ModuleID a < ModuleID b \<or> (ModuleID a = ModuleID b \<and> Place a \<le> Place b))"

definition active_fields :: "ModuleField list \<Rightarrow> uint64 list \<Rightarrow> ModuleField list" where
  "active_fields rows moduleIDs =
     sort_by field_le [r \<leftarrow> rows. ModuleID r \<in> set moduleIDs \<and> DeletedAt r = None]"

definition FindFields :: "world \<Rightarrow> uint64 list \<Rightarrow> (error + ModuleField list) \<times> world" where
  "FindFields w moduleIDs =
     (if moduleIDs = [] then (Inr [], w)
      else (case issue w (SelectFieldsCall moduleIDs) of
              (Some e, w') \<Rightarrow> (Inl (StorageFailure e), w')
            | (None, w') \<Rightarrow> (Inr (active_fields (field_rows w) moduleIDs), w')))"

text \<open>
  Modelled from the spec: \<open>ModuleFieldSet.FindByID\<close> (package \<open>compose/types\<close>) returns
  the field of the set with the given ID, \<open>nil\<close> when there is none.
\<close>

definition FindFieldByID :: "ModuleField list \<Rightarrow> uint64 \<Rightarrow> ModuleField option" where
  "FindFieldByID fs i = find (\<lambda>f. ID f = i) fs"

text \<open>\<open>deleteFieldByID\<close>: \<open>DELETE FROM compose_module_field WHERE rel_module = ? AND id = ?\<close>.\<close>

definition delete_row :: "ModuleField list \<Rightarrow> uint64 \<Rightarrow> uint64 \<Rightarrow> ModuleField list" where
  "delete_row rows moduleID fieldID = [r \<leftarrow> rows. \<not> (ModuleID r = moduleID \<and> ID r = fieldID)]"

definition deleteFieldByID :: "world \<Rightarrow> uint64 \<Rightarrow> uint64 \<Rightarrow> error option \<times> world" where
  "deleteFieldByID w moduleID fieldID =
     (case issue w (DeleteFieldCall moduleID fieldID) of
        (Some e, w') \<Rightarrow> (Some (StorageFailure e), w')
      | (None, w') \<Rightarrow>
          (None, w'\<lparr>field_rows := delete_row (field_rows w') moduleID fieldID\<rparr>))"

text \<open>
  Modelled from the spec: \<open>db.Replace\<close> upserts a row of the field table, which is keyed
  by \<open>id\<close>: the row with the same key, if any, is overwritten in full.
\<close>

definition replace_row :: "ModuleField list \<Rightarrow> ModuleField \<Rightarrow> ModuleField list" where
  "replace_row rows f = [r \<leftarrow> rows. ID r \<noteq> ID f] @ [f]"

definition Replace :: "world \<Rightarrow> ModuleField \<Rightarrow> error option \<times> world" where
  "Replace w f =
     (case issue w (ReplaceFieldCall (ID f)) of
        (Some e, w') \<Rightarrow> (Some (StorageFailure e), w')
      | (None, w') \<Rightarrow> (None, w'\<lparr>field_rows := replace_row (field_rows w') f\<rparr>))"

text \<open>
  The first phase of \<open>UpdateFields\<close>: \<open>existing.Walk\<close> with the closure that deletes
  every existing field whose ID is not in \<open>ff\<close>; the walk stops at the first error.
\<close>

fun Walk_remove ::
  "world \<Rightarrow> uint64 \<Rightarrow> ModuleField list \<Rightarrow> ModuleField list \<Rightarrow> error option \<times> world" where
  "Walk_remove w moduleID ff [] = (None, w)"
| "Walk_remove w moduleID ff (e # es) =
     (if FindFieldByID ff (ID e) = None
      then (case deleteFieldByID w moduleID (ID e) of
              (Some err, w') \<Rightarrow> (Some err, w')
            | (None, w') \<Rightarrow> Walk_remove w' moduleID ff es)
      else Walk_remove w moduleID ff es)"

text \<open>
  The body of the loop over \<open>ff\<close> up to the upsert: the field \<open>f\<close> at index \<open>idx\<close> as it
  is written, and as the caller sees it afterwards (\<open>ff\<close> holds pointers).
\<close>

definition reconcile ::
  "world \<Rightarrow> uint64 \<Rightarrow> ModuleField list \<Rightarrow> bool \<Rightarrow> nat \<Rightarrow> ModuleField \<Rightarrow> ModuleField \<times> world" where
  "reconcile w moduleID existing hasRecords idx f =
     (case (case FindFieldByID existing (ID f) of
              Some e \<Rightarrow>
                (let f' = f\<lparr>CreatedAt := CreatedAt e\<rparr>
                 in if hasRecords then (f'\<lparr>Name := Name e, Kind := Kind e\<rparr>, w)
                    else (case SetCurrentTimeRounded w of
                            (now, w') \<Rightarrow> (f'\<lparr>UpdatedAt := Some now\<rparr>, w')))
            | None \<Rightarrow> (f\<lparr>ID := 0\<rparr>, w)) of
        (f1, w1) \<Rightarrow>
          (case (if ID f1 = 0
                 then (case NextID w1 of
                         (i, w') \<Rightarrow>
                           (case SetCurrentTimeRounded w' of
                              (now, w'') \<Rightarrow> (f1\<lparr>ID := i, CreatedAt := now\<rparr>, w'')))
                 else (f1, w1)) of
             (f2, w2) \<Rightarrow> (f2\<lparr>ModuleID := moduleID, Place := int idx, DeletedAt := None\<rparr>, w2)))"

text \<open>
  The loop \<open>for idx, f := range ff\<close>.  The result carries \<open>ff\<close> as the loop leaves it:
  the fields reached are updated in place, the others are as they were.
\<close>

fun upsert_fields ::
  "world \<Rightarrow> uint64 \<Rightarrow> ModuleField list \<Rightarrow> bool \<Rightarrow> nat \<Rightarrow> ModuleField list
     \<Rightarrow> error option \<times> ModuleField list \<times> world" where
  "upsert_fields w moduleID existing hasRecords idx [] = (None, [], w)"
| "upsert_fields w moduleID existing hasRecords idx (f # fs) =
     (case reconcile w moduleID existing hasRecords idx f of
        (f', w1) \<Rightarrow>
          (case Replace w1 f' of
             (Some err, w2) \<Rightarrow> (Some (Wrap err ''Error updating module fields''), f' # fs, w2)
           | (None, w2) \<Rightarrow>
               (case upsert_fields w2 moduleID existing hasRecords (Suc idx) fs of
                  (r, fs', w3) \<Rightarrow> (r, f' # fs', w3))))"

definition UpdateFields ::
  "world \<Rightarrow> uint64 \<Rightarrow> ModuleField list \<Rightarrow> bool \<Rightarrow> error option \<times> ModuleField list \<times> world" where
  "UpdateFields w moduleID ff hasRecords =
     (case FindFields w [moduleID] of
        (Inl err, w1) \<Rightarrow> (Some err, ff, w1)
      | (Inr existing, w1) \<Rightarrow>
          (case Walk_remove w1 moduleID ff existing of
             (Some err, w2) \<Rightarrow> (Some err, ff, w2)
           | (None, w2) \<Rightarrow> upsert_fields w2 moduleID existing hasRecords 0 ff))"

section \<open>Example states\<close>

definition example_modules :: "Module list" where
  "example_modules =
     [\<lparr>mod_ID = 11, mod_NamespaceID = 1, mod_Handle = ''Orders'', mod_Name = ''Order List'',
       mod_Meta = [], mod_CreatedAt = 100, mod_UpdatedAt = None, mod_DeletedAt = None\<rparr>,
      \<lparr>mod_ID = 12, mod_NamespaceID = 1, mod_Handle = ''customer'', mod_Name = ''Customer List'',
       mod_Meta = [], mod_CreatedAt = 110, mod_UpdatedAt = None, mod_DeletedAt = Some 150\<rparr>,
      \<lparr>mod_ID = 10, mod_NamespaceID = 2, mod_Handle = ''customer'', mod_Name = ''Customers'',
       mod_Meta = [], mod_CreatedAt = 120, mod_UpdatedAt = Some 130, mod_DeletedAt = None\<rparr>]"

definition example_world :: world where
  "example_world =
     \<lparr>module_rows = example_modules, field_rows = [], trace = [],
      faults = (\<lambda>n. None), id_source = (\<lambda>n. of_nat (1000 + n)), ids_drawn = 0,
      clock = (\<lambda>n. 500 + n), clock_reads = 0\<rparr>"

text \<open>The active modules of a namespace.\<close>

definition active_in :: "world \<Rightarrow> uint64 \<Rightarrow> Module \<Rightarrow> bool" where
  "active_in w ns m =
     (m \<in> set (module_rows w) \<and> mod_DeletedAt m = None \<and> mod_NamespaceID m = ns)"

definition example_filter :: ModuleFilter where
  "example_filter =
     \<lparr>flt_NamespaceID = 0, flt_Query = [], flt_Name = [], flt_Handle = [], flt_Page = 1,
      flt_PerPage = 10, flt_Sort = [], flt_Count = 0, flt_IsReadable = None\<rparr>"

text \<open>
  The conditions of \<open>Find\<close> other than the one on the namespace, as the filter states
  them: the module is active, matches the free-text fragment, the exact name and the
  exact handle where these are given, and passes the authorization predicate.
\<close>

definition other_conditions :: "ModuleFilter \<Rightarrow> Module \<Rightarrow> bool" where
  "other_conditions f m =
     (mod_DeletedAt m = None \<and>
      (flt_Query f = [] \<or>
         like (''%'' @ ToLower (flt_Query f) @ ''%'') (ToLower (mod_Name m)) \<or>
         like (''%'' @ ToLower (flt_Query f) @ ''%'') (ToLower (mod_Handle m))) \<and>
      (flt_Name f = [] \<or> ToLower (mod_Name m) = ToLower (flt_Name f)) \<and>
      (flt_Handle f = [] \<or> ToLower (mod_Handle m) = ToLower (flt_Handle f)) \<and>
      (case flt_IsReadable f of None \<Rightarrow> True | Some P \<Rightarrow> P m))"

definition example_fields :: "ModuleField list" where
  "example_fields =
     [\<lparr>ID = 101, ModuleID = 11, Place = 0, Kind = ''number'', Name = ''Amount'', Label = ''Amount'',
       Options = [], Private = False, Required = True, Visible = True, Multi = False,
       DefaultValue = [], CreatedAt = 200, UpdatedAt = None, DeletedAt = None\<rparr>,
      \<lparr>ID = 102, ModuleID = 11, Place = 1, Kind = ''text'', Name = ''Note'', Label = ''Note'',
       Options = [], Private = False, Required = False, Visible = True, Multi = False,
       DefaultValue = [], CreatedAt = 201, UpdatedAt = None, DeletedAt = None\<rparr>,
      \<lparr>ID = 103, ModuleID = 11, Place = 2, Kind = ''date'', Name = ''Due'', Label = ''Due'',
       Options = [], Private = False, Required = False, Visible = True, Multi = False,
       DefaultValue = [], CreatedAt = 202, UpdatedAt = Some 250, DeletedAt = None\<rparr>,
      \<lparr>ID = 104, ModuleID = 10, Place = 0, Kind = ''text'', Name = ''Name'', Label = ''Name'',
       Options = [], Private = False, Required = True, Visible = True, Multi = False,
       DefaultValue = [], CreatedAt = 203, UpdatedAt = None, DeletedAt = None\<rparr>,
      \<lparr>ID = 105, ModuleID = 11, Place = 3, Kind = ''text'', Name = ''Old'', Label = ''Old'',
       Options = [], Private = False, Required = False, Visible = True, Multi = False,
       DefaultValue = [], CreatedAt = 204, UpdatedAt = None, DeletedAt = Some 300\<rparr>]"

definition example_store :: world where
  "example_store = example_world\<lparr>field_rows := example_fields\<rparr>"

definition new_field :: "string \<Rightarrow> string \<Rightarrow> ModuleField" where
  "new_field n k =
     \<lparr>ID = 0, ModuleID = 0, Place = 0, Kind = k, Name = n, Label = n,
      Options = [], Private = False, Required = False, Visible = True, Multi = False,
      DefaultValue = [], CreatedAt = 0, UpdatedAt = None, DeletedAt = None\<rparr>"

section \<open>Notions used in the statements on fields\<close>

text \<open>The rows a successful loop over \<open>ff\<close> writes, computed without the storage.\<close>

fun reconciled ::
  "world \<Rightarrow> uint64 \<Rightarrow> ModuleField list \<Rightarrow> bool \<Rightarrow> nat \<Rightarrow> ModuleField list \<Rightarrow> ModuleField list" where
  "reconciled w moduleID existing hasRecords idx [] = []"
| "reconciled w moduleID existing hasRecords idx (f # fs) =
     (case reconcile w moduleID existing hasRecords idx f of
        (f', w1) \<Rightarrow> f' # reconciled w1 moduleID existing hasRecords (Suc idx) fs)"

text \<open>The number of fields before index \<open>i\<close> that match no existing field.\<close>

definition fresh_before :: "ModuleField list \<Rightarrow> ModuleField list \<Rightarrow> nat \<Rightarrow> nat" where
  "fresh_before existing ff i =
     length [f \<leftarrow> take i ff. FindFieldByID existing (ID f) = None]"

text \<open>
  The next \<open>n\<close> identifiers of the generator are pairwise distinct, non-zero and used by
  no row of the field table.
\<close>

definition fresh_ids :: "world \<Rightarrow> nat \<Rightarrow> bool" where
  "fresh_ids w n =
     (distinct (map (id_source w) [ids_drawn w ..< ids_drawn w + n]) \<and>
      (\<forall>k \<in> set [ids_drawn w ..< ids_drawn w + n].
         id_source w k \<noteq> 0 \<and> id_source w k \<notin> ID ` set (field_rows w)))"

text \<open>The identifier and clock positions after that loop.\<close>

fun reconciled_world ::
  "world \<Rightarrow> uint64 \<Rightarrow> ModuleField list \<Rightarrow> bool \<Rightarrow> nat \<Rightarrow> ModuleField list \<Rightarrow> world" where
  "reconciled_world w moduleID existing hasRecords idx [] = w"
| "reconciled_world w moduleID existing hasRecords idx (f # fs) =
     (case reconcile w moduleID existing hasRecords idx f of
        (f', w1) \<Rightarrow> reconciled_world w1 moduleID existing hasRecords (Suc idx) fs)"

text \<open>The field table after the first phase of \<open>UpdateFields\<close> has run to its end.\<close>

definition after_removal ::
  "ModuleField list \<Rightarrow> uint64 \<Rightarrow> ModuleField list \<Rightarrow> ModuleField list \<Rightarrow> ModuleField list" where
  "after_removal rows moduleID ff existing =
     [r \<leftarrow> rows. \<not> (ModuleID r = moduleID \<and> ID r \<in> ID ` set existing \<and> ID r \<notin> ID ` set ff)]"

text \<open>The rows of the field table that belong to other modules.\<close>

definition other_modules :: "ModuleField list \<Rightarrow> uint64 \<Rightarrow> ModuleField list" where
  "other_modules rows moduleID = [r \<leftarrow> rows. ModuleID r \<noteq> moduleID]"

text \<open>
  The row written for a field \<open>f\<close> at index \<open>i\<close>: when \<open>f\<close> matches the existing field
  \<open>e\<close>, and when it matches none and gets the identifier \<open>n\<close>.  \<open>t\<close> is the clock
  reading of that iteration.
\<close>

definition kept_field ::
  "ModuleField \<Rightarrow> ModuleField \<Rightarrow> bool \<Rightarrow> timestamp \<Rightarrow> uint64 \<Rightarrow> nat \<Rightarrow> ModuleField" where
  "kept_field f e hasRecords t moduleID i =
     (if hasRecords
      then f\<lparr>CreatedAt := CreatedAt e, Name := Name e, Kind := Kind e,
             ModuleID := moduleID, Place := int i, DeletedAt := None\<rparr>
      else f\<lparr>CreatedAt := CreatedAt e, UpdatedAt := Some t,
             ModuleID := moduleID, Place := int i, DeletedAt := None\<rparr>)"

definition new_row :: "ModuleField \<Rightarrow> uint64 \<Rightarrow> timestamp \<Rightarrow> uint64 \<Rightarrow> nat \<Rightarrow> ModuleField" where
  "new_row f n t moduleID i =
     f\<lparr>ID := n, CreatedAt := t, ModuleID := moduleID, Place := int i, DeletedAt := None\<rparr>"

text \<open>
  Of the rows written one after the other, those that are still in the table at the
  end: a later row with the same ID overwrites an earlier one.
\<close>

fun written :: "ModuleField list \<Rightarrow> ModuleField list" where
  "written [] = []"
| "written (f # fs) = (if ID f \<in> ID ` set fs then written fs else f # written fs)"

text \<open>The rows of the table that none of the rows written overwrites.\<close>

definition untouched :: "ModuleField list \<Rightarrow> ModuleField list \<Rightarrow> ModuleField list" where
  "untouched rows fs = [r \<leftarrow> rows. ID r \<notin> ID ` set fs]"

definition example_new :: "ModuleField list" where
  "example_new = [new_field ''A'' ''text'', new_field ''B'' ''number'']"

section \<open>Properties of the query engine\<close>

lemma set_insort_by [simp]: "set (insort_by le x xs) = insert x (set xs)"
  by (induction xs) auto

lemma set_sort_by [simp]: "set (sort_by le xs) = set xs"
  by (induction xs) (auto simp: sort_by_def)

lemma sort_by_Cons: "sort_by le (x # xs) = insort_by le x (sort_by le xs)"
  by (simp add: sort_by_def)

lemma sort_by_Nil [simp]: "sort_by le [] = []"
  by (simp add: sort_by_def)

lemma sort_by_trivial:
  assumes "\<forall>a b. le a b"
  shows "sort_by le xs = xs"
proof (induction xs)
  case Nil
  show ?case by simp
next
  case (Cons x xs)
  have "sort_by le (x # xs) = insort_by le x xs" by (simp add: sort_by_Cons Cons.IH)
  also have "\<dots> = x # xs" using assms by (cases xs) simp_all
  finally show ?case .
qed



lemma run_query_unordered: "order_by q = [] \<Longrightarrow> run_query q rows = matching q rows"
  by (simp add: run_query_def sort_by_trivial)

lemma holds_namespace [simp]:
  "holds (Eq ''rel_namespace'' (SqlInt (unat ns))) m = (mod_NamespaceID m = ns)"
  by (simp add: column_value_def word_unat_eq_iff)

lemma holds_id [simp]: "holds (Eq ''id'' (SqlInt (unat i))) m = (mod_ID m = i)"
  by (simp add: column_value_def word_unat_eq_iff)

lemma holds_lower_handle [simp]:
  "holds (Eq ''LOWER(handle)'' (SqlText s)) m = (ToLower (mod_Handle m) = s)"
  by (simp add: column_value_def)

lemma holds_lower_name [simp]:
  "holds (Eq ''LOWER(name)'' (SqlText s)) m = (ToLower (mod_Name m) = s)"
  by (simp add: column_value_def)


section \<open>Lookup by key\<close>

lemma findOneBy_unfold:
  "findOneBy w ns field v =
     (case faults w (length (trace w)) of
        Some e \<Rightarrow> (Inl (StorageFailure e), w\<lparr>trace := trace w @ [FetchOneCall]\<rparr>)
      | None \<Rightarrow>
          (case [m \<leftarrow> module_rows w. mod_DeletedAt m = None \<and> holds (Eq field v) m \<and> mod_NamespaceID m = ns] of
             [] \<Rightarrow> (Inl ErrModuleNotFound, w\<lparr>trace := trace w @ [FetchOneCall]\<rparr>)
           | m # ms \<Rightarrow> if mod_ID m = 0 then (Inl ErrModuleNotFound, w\<lparr>trace := trace w @ [FetchOneCall]\<rparr>)
                        else (Inr m, w\<lparr>trace := trace w @ [FetchOneCall]\<rparr>)))"
  by (simp add: findOneBy_def FetchOne_def issue_def run_query_unordered Where_def base_query_def
      matching_def zero_Module_def del: holds.simps(2) split: option.splits list.splits)


lemma findOneBy_not_found_iff:
  assumes "faults w (length (trace w)) = None"
    and "\<forall>m \<in> set (module_rows w). mod_DeletedAt m = None \<longrightarrow> mod_ID m \<noteq> 0"
  shows "(fst (findOneBy w ns field v) = Inl ErrModuleNotFound) =
         (\<not> (\<exists>m. active_in w ns m \<and> holds (Eq field v) m))"
proof -
  let ?sel = "[m \<leftarrow> module_rows w. mod_DeletedAt m = None \<and> holds (Eq field v) m \<and> mod_NamespaceID m = ns]"
  show ?thesis
  proof (cases ?sel)
    case Nil
    then have "\<not> (\<exists>m. active_in w ns m \<and> holds (Eq field v) m)"
      by (auto simp: filter_empty_conv active_in_def simp del: holds.simps)
    with Nil assms(1) show ?thesis by (simp add: findOneBy_unfold del: holds.simps)
  next
    case (Cons m ms)
    then have "m \<in> set ?sel" by simp
    then have m: "active_in w ns m" "holds (Eq field v) m"
      by (simp_all add: active_in_def del: holds.simps)
    with assms(2) have "mod_ID m \<noteq> 0" by (simp add: active_in_def)
    with Cons assms(1) m show ?thesis by (auto simp add: findOneBy_unfold simp del: holds.simps)
  qed
qed

lemma findOneBy_found:
  assumes "fst (findOneBy w ns field v) = Inr m"
  shows "active_in w ns m \<and> holds (Eq field v) m"
proof -
  let ?sel = "[m \<leftarrow> module_rows w. mod_DeletedAt m = None \<and> holds (Eq field v) m \<and> mod_NamespaceID m = ns]"
  from assms obtain ms where "?sel = m # ms"
    by (auto simp add: findOneBy_unfold simp del: holds.simps split: option.splits list.splits if_splits)
  then have "m \<in> set ?sel" by simp
  then show ?thesis by (simp add: active_in_def del: holds.simps)
qed

lemma findOneBy_failure:
  "faults w (length (trace w)) = Some e \<Longrightarrow> fst (findOneBy w ns field v) = Inl (StorageFailure e)"
  by (simp add: findOneBy_unfold)

text \<open>
  C5.  \<open>FindByID\<close>, \<open>FindByHandle\<close> and \<open>FindByName\<close> return a storage failure
  unchanged; otherwise they return \<open>ErrModuleNotFound\<close> exactly when no active module of
  the namespace matches the key, whatever soft-deleted rows there are.  Handles and
  names are compared in lower case, the input being trimmed first.  A module that is
  returned is an active module of the namespace with that key.  Stored modules carry
  generated, non-zero IDs.
\<close>

theorem find_one_not_found:
  assumes "\<forall>m \<in> set (module_rows w). mod_DeletedAt m = None \<longrightarrow> mod_ID m \<noteq> 0"
  shows "(\<forall>e. faults w (length (trace w)) = Some e \<longrightarrow>
            fst (FindByID w ns i) = Inl (StorageFailure e) \<and>
            fst (FindByHandle w ns h) = Inl (StorageFailure e) \<and>
            fst (FindByName w ns n) = Inl (StorageFailure e)) \<and>
         (faults w (length (trace w)) = None \<longrightarrow>
            (fst (FindByID w ns i) = Inl ErrModuleNotFound) =
              (\<not> (\<exists>m. active_in w ns m \<and> mod_ID m = i)) \<and>
            (fst (FindByHandle w ns h) = Inl ErrModuleNotFound) =
              (\<not> (\<exists>m. active_in w ns m \<and> ToLower (mod_Handle m) = ToLower (TrimSpace h))) \<and>
            (fst (FindByName w ns n) = Inl ErrModuleNotFound) =
              (\<not> (\<exists>m. active_in w ns m \<and> ToLower (mod_Name m) = ToLower (TrimSpace n)))) \<and>
         (\<forall>m. (fst (FindByID w ns i) = Inr m \<longrightarrow> active_in w ns m \<and> mod_ID m = i) \<and>
              (fst (FindByHandle w ns h) = Inr m \<longrightarrow>
                 active_in w ns m \<and> ToLower (mod_Handle m) = ToLower (TrimSpace h)) \<and>
              (fst (FindByName w ns n) = Inr m \<longrightarrow>
                 active_in w ns m \<and> ToLower (mod_Name m) = ToLower (TrimSpace n)))"
  using assms findOneBy_not_found_iff [of w ns "''id''" "SqlInt (unat i)"]
    findOneBy_not_found_iff [of w ns "''LOWER(handle)''" "SqlText (ToLower (TrimSpace h))"]
    findOneBy_not_found_iff [of w ns "''LOWER(name)''" "SqlText (ToLower (TrimSpace n))"]
    findOneBy_found [of w ns "''id''" "SqlInt (unat i)"]
    findOneBy_found [of w ns "''LOWER(handle)''" "SqlText (ToLower (TrimSpace h))"]
    findOneBy_found [of w ns "''LOWER(name)''" "SqlText (ToLower (TrimSpace n))"]
  by (simp add: FindByID_def FindByHandle_def FindByName_def findOneBy_failure del: holds.simps)


theorem find_one_not_found_witness:
  "fst (FindByID example_world 1 12) = Inl ErrModuleNotFound \<and>
   fst (FindByHandle example_world 1 ''  ORDERS  '') \<noteq> Inl ErrModuleNotFound \<and>
   fst (FindByName example_world 1 ''customers'') = Inl ErrModuleNotFound"
proof -
  have ids: "\<forall>m \<in> set (module_rows example_world). mod_DeletedAt m = None \<longrightarrow> mod_ID m \<noteq> 0"
    by (simp add: example_world_def example_modules_def)
  have nofault: "faults example_world (length (trace example_world)) = None"
    by (simp add: example_world_def)
  have low: "ToLower (TrimSpace ''  ORDERS  '') = ''orders''" "ToLower ''Orders'' = ''orders''"
    "ToLower (TrimSpace ''customers'') = ''customers''" "ToLower ''Order List'' = ''order list''"
    by code_simp+
  have a: "\<not> (\<exists>m. active_in example_world 1 m \<and> mod_ID m = 12)"
    by (auto simp: active_in_def example_world_def example_modules_def)
  have b: "\<exists>m. active_in example_world 1 m \<and> ToLower (mod_Handle m) = ToLower (TrimSpace ''  ORDERS  '')"
    by (rule exI [of _ "hd example_modules"])
      (simp add: active_in_def example_world_def example_modules_def low)
  have c: "\<not> (\<exists>m. active_in example_world 1 m \<and> ToLower (mod_Name m) = ToLower (TrimSpace ''customers''))"
    by (auto simp: active_in_def example_world_def example_modules_def low)
  from find_one_not_found [OF ids, of 1 12 "''  ORDERS  ''" "''customers''"] nofault a b c
  show ?thesis by blast
qed

section \<open>Soft deletion\<close>

lemma map_if_unchanged: "\<forall>x \<in> set xs. \<not> P x \<Longrightarrow> map (\<lambda>x. if P x then f x else x) xs = xs"
  by (induction xs) auto

text \<open>
  C8.  \<open>DeleteByID\<close> stamps \<open>DeletedAt\<close> with the current time on the rows of the
  namespace with the given ID, and returns no error whenever the statement runs: when
  no row matches, the table is left as it was and the result is the same.
\<close>

theorem DeleteByID_soft_deletes:
  assumes "faults w (length (trace w)) = None"
  shows "fst (DeleteByID w ns i) = None \<and>
         module_rows (snd (DeleteByID w ns i)) =
           map (\<lambda>m. if mod_NamespaceID m = ns \<and> mod_ID m = i
                    then m\<lparr>mod_DeletedAt := Some (clock w (clock_reads w))\<rparr> else m)
               (module_rows w) \<and>
         ((\<forall>m \<in> set (module_rows w). \<not> (mod_NamespaceID m = ns \<and> mod_ID m = i)) \<longrightarrow>
            module_rows (snd (DeleteByID w ns i)) = module_rows w) \<and>
         field_rows (snd (DeleteByID w ns i)) = field_rows w \<and>
         trace (snd (DeleteByID w ns i)) = trace w @ [SoftDeleteModuleCall ns i]"
  using assms
  by (simp add: DeleteByID_def issue_def SetCurrentTimeRounded_def map_if_unchanged)


theorem DeleteByID_soft_deletes_witness:
  "fst (DeleteByID example_world 1 99) = None \<and>
   module_rows (snd (DeleteByID example_world 1 99)) = module_rows example_world \<and>
   map mod_DeletedAt (module_rows (snd (DeleteByID example_world 1 11))) = [Some 500, Some 150, None]"
proof -
  have nofault: "faults example_world (length (trace example_world)) = None"
    by (simp add: example_world_def)
  have none: "\<forall>m \<in> set (module_rows example_world). \<not> (mod_NamespaceID m = 1 \<and> mod_ID m = 99)"
    by (simp add: example_world_def example_modules_def)
  from DeleteByID_soft_deletes [OF nofault, of 1 99] DeleteByID_soft_deletes [OF nofault, of 1 11] none
  show ?thesis by (simp add: example_world_def example_modules_def)
qed


section \<open>Filtered lookup\<close>

lemma ParseOrder_default: "ParseOrder ''id ASC'' columns = Inr [(''id'', False)]"
  by code_simp

lemma sorted_insort_by:
  assumes "\<forall>a b. le a b \<or> le b a" and "\<forall>a b c. le a b \<longrightarrow> le b c \<longrightarrow> le a c"
  shows "sorted_wrt le xs \<Longrightarrow> sorted_wrt le (insort_by le x xs)"
proof (induction xs)
  case Nil
  show ?case by simp
next
  case (Cons y ys)
  show ?case
  proof (cases "le x y")
    case True
    with Cons.prems assms(2) show ?thesis by auto
  next
    case False
    with assms(1) have "le y x" by blast
    with False Cons show ?thesis by auto
  qed
qed

lemma sorted_sort_by:
  assumes "\<forall>a b. le a b \<or> le b a" and "\<forall>a b c. le a b \<longrightarrow> le b c \<longrightarrow> le a c"
  shows "sorted_wrt le (sort_by le xs)"
  by (induction xs) (simp_all add: sort_by_Cons sorted_insort_by [OF assms])

lemma row_le_id: "row_le [(''id'', False)] a b = (mod_ID a \<le> mod_ID b)"
  by (auto simp: column_value_def word_unat_eq_iff word_le_nat_alt word_less_nat_alt)

lemma Find_unfold:
  assumes "ParseOrder (flt_Sort (resolve_sort flt)) columns = Inr ts"
  shows "Find w flt =
     (let f = resolve_sort flt; q = OrderBy (Find_query flt f) ts
      in case faults w (length (trace w)) of
           Some e \<Rightarrow> (([], f\<lparr>flt_Count := 0\<rparr>, Some (StorageFailure e)), w\<lparr>trace := trace w @ [CountCall]\<rparr>)
         | None \<Rightarrow>
             (let n = length (matching q (module_rows w)) in
              if n = 0 then (([], f\<lparr>flt_Count := 0\<rparr>, None), w\<lparr>trace := trace w @ [CountCall]\<rparr>)
              else (case faults w (Suc (length (trace w))) of
                      Some e \<Rightarrow> (([], f\<lparr>flt_Count := n\<rparr>, Some (StorageFailure e)),
                                   w\<lparr>trace := trace w @ [CountCall, FetchPagedCall (flt_Page flt) (flt_PerPage flt)]\<rparr>)
                    | None \<Rightarrow> ((page_rows (flt_Page flt) (flt_PerPage flt) (run_query q (module_rows w)),
                                  f\<lparr>flt_Count := n\<rparr>, None),
                                 w\<lparr>trace := trace w @ [CountCall, FetchPagedCall (flt_Page flt) (flt_PerPage flt)]\<rparr>))))"
  using assms
  by (simp add: Find_def Let_def Count_def FetchPaged_def issue_def resolve_sort_def
      split: option.splits)


text \<open>
  C6.  Once the ordering is parsed, \<open>Find\<close> first issues the count.  When the count is
  zero it returns the empty set and the resolved filter with \<open>Count = 0\<close>, and the count
  is the only statement issued.  Otherwise it issues one page fetch with the filter's
  \<open>Page\<close> and \<open>PerPage\<close> and returns that page and the resolved filter with the count.
\<close>

theorem Find_count_then_page:
  assumes "ParseOrder (flt_Sort (resolve_sort flt)) columns = Inr ts"
    and "faults w (length (trace w)) = None"
    and "faults w (Suc (length (trace w))) = None"
  shows "Find w flt =
     (let f = resolve_sort flt; q = OrderBy (Find_query flt f) ts;
          n = length (matching q (module_rows w))
      in if n = 0
         then (([], f\<lparr>flt_Count := 0\<rparr>, None), w\<lparr>trace := trace w @ [CountCall]\<rparr>)
         else ((page_rows (flt_Page flt) (flt_PerPage flt) (run_query q (module_rows w)),
                f\<lparr>flt_Count := n\<rparr>, None),
               w\<lparr>trace := trace w @ [CountCall, FetchPagedCall (flt_Page flt) (flt_PerPage flt)]\<rparr>))"
  using assms(2,3) by (simp add: Find_unfold [OF assms(1)] Let_def)

lemma wheres_Find_query:
  "wheres (Find_query flt f) =
     [DeletedAtIsNull] @
     (if 0 < flt_NamespaceID flt
      then [Eq ''rel_namespace'' (SqlInt (unat (flt_NamespaceID flt)))] else []) @
     (if flt_Query f \<noteq> []
      then [Or (Like ''LOWER(name)'' (''%'' @ ToLower (flt_Query f) @ ''%''))
               (Like ''LOWER(handle)'' (''%'' @ ToLower (flt_Query f) @ ''%''))] else []) @
     (if flt_Name f \<noteq> [] then [Eq ''LOWER(name)'' (SqlText (ToLower (flt_Name f)))] else []) @
     (if flt_Handle f \<noteq> [] then [Eq ''LOWER(handle)'' (SqlText (ToLower (flt_Handle f)))] else []) @
     (case flt_IsReadable f of None \<Rightarrow> [] | Some P \<Rightarrow> [Sqlizer P])"
  by (simp add: Find_query_def Let_def Where_def base_query_def split: option.splits)

lemma holds_like_name_or_handle [simp]:
  "holds (Or (Like ''LOWER(name)'' p) (Like ''LOWER(handle)'' p)) m =
     (like p (ToLower (mod_Name m)) \<or> like p (ToLower (mod_Handle m)))"
  by (simp add: column_value_def)

lemma holds_all_Find_query:
  "(\<forall>c \<in> set (wheres (OrderBy (Find_query flt f) ts)). holds c m) =
     ((0 < flt_NamespaceID flt \<longrightarrow> mod_NamespaceID m = flt_NamespaceID flt) \<and>
      other_conditions f m)"
proof -
  have single: "\<And>b x P. (\<forall>c \<in> set (if b then [x] else []). P c) = (b \<longrightarrow> P x)"
    by simp
  show ?thesis
    by (cases "flt_IsReadable f")
      (simp_all add: wheres_Find_query OrderBy_def other_conditions_def ball_Un single
        del: holds.simps(2,3,4) split del: if_split, blast+)
qed

lemma matching_Find_query:
  "matching (OrderBy (Find_query flt f) ts) rows =
     [m \<leftarrow> rows. (0 < flt_NamespaceID flt \<longrightarrow> mod_NamespaceID m = flt_NamespaceID flt) \<and>
                  other_conditions f m]"
  unfolding matching_def holds_all_Find_query ..


theorem Find_count_then_page_witness:
  "trace (snd (Find example_world example_filter)) = [CountCall, FetchPagedCall 1 10] \<and>
   map mod_ID (fst (fst (Find example_world example_filter))) = [10, 11] \<and>
   flt_Count (fst (snd (fst (Find example_world example_filter)))) = 2 \<and>
   trace (snd (Find example_world (example_filter\<lparr>flt_Query := ''zzz''\<rparr>))) = [CountCall] \<and>
   fst (fst (Find example_world (example_filter\<lparr>flt_Query := ''zzz''\<rparr>))) = [] \<and>
   flt_Count (fst (snd (fst (Find example_world (example_filter\<lparr>flt_Query := ''zzz''\<rparr>))))) = 0"
proof -
  let ?z = "example_filter\<lparr>flt_Query := ''zzz''\<rparr>"
  have p: "ParseOrder (flt_Sort (resolve_sort example_filter)) columns = Inr [(''id'', False)]"
    "ParseOrder (flt_Sort (resolve_sort ?z)) columns = Inr [(''id'', False)]"
    by (simp_all add: resolve_sort_def example_filter_def ParseOrder_default)
  have f: "faults example_world (length (trace example_world)) = None"
    "faults example_world (Suc (length (trace example_world))) = None"
    by (simp_all add: example_world_def)
  have m: "matching (OrderBy (Find_query example_filter (resolve_sort example_filter))
             [(''id'', False)]) (module_rows example_world) = [example_modules ! 0, example_modules ! 2]"
    "matching (OrderBy (Find_query ?z (resolve_sort ?z)) [(''id'', False)])
       (module_rows example_world) = []"
    by code_simp+
  have r: "map mod_ID (page_rows (Suc 0) 10 (sort_by (row_le [(''id'', False)])
             [example_modules ! 0, example_modules ! 2])) = [10, 11]"
    by code_simp
  have o: "order_by (OrderBy (Find_query example_filter (resolve_sort example_filter))
             [(''id'', False)]) = [(''id'', False)]"
    by code_simp
  have t: "trace example_world = []" "flt_Page example_filter = 1" "flt_PerPage example_filter = 10"
    by (simp_all add: example_world_def example_filter_def)
  from Find_count_then_page [OF p(1) f] Find_count_then_page [OF p(2) f]
  show ?thesis by (simp add: Let_def m r o t run_query_def)
qed

text \<open>
  C7.  With an empty \<open>Sort\<close> the ordering is \<open>id\<close> ascending: that is what the default
  specification parses to, and the rows returned are in ascending order of ID.  When a
  term of the specification names a column outside the declared list, \<open>Find\<close> returns
  an ordering error and issues no statement.
\<close>

lemma check_terms_invalid:
  "\<exists>t \<in> set ts. fst t \<notin> set valid \<Longrightarrow>
   \<exists>c. c \<notin> set valid \<and> check_terms valid ts = Inl (OrderSpecInvalid c)"
proof (induction ts)
  case Nil
  then show ?case by simp
next
  case (Cons t ts)
  obtain c d where t: "t = (c, d)" by (cases t)
  show ?case
  proof (cases "c \<in> set valid")
    case True
    with Cons.prems t have "\<exists>t \<in> set ts. fst t \<notin> set valid" by auto
    from Cons.IH [OF this] True t show ?thesis by auto
  next
    case False
    with t show ?thesis by auto
  qed
qed

lemma row_le_id_fun: "row_le [(''id'', False)] = (\<lambda>a b. mod_ID a \<le> mod_ID b)"
  by (intro ext) (rule row_le_id)

lemma sorted_run_query_id:
  assumes "order_by q = [(''id'', False)]"
  shows "sorted_wrt (\<lambda>a b. mod_ID a \<le> mod_ID b) (page_rows p n (run_query q rows))"
proof -
  have "sorted_wrt (\<lambda>a b. mod_ID a \<le> mod_ID b)
          (sort_by (\<lambda>a b. mod_ID a \<le> mod_ID b) (matching q rows))"
    by (rule sorted_sort_by) auto
  then show ?thesis
    by (simp add: run_query_def assms row_le_id_fun page_rows_def sorted_wrt_take sorted_wrt_drop)
qed

lemma order_by_Find_query [simp]: "order_by (OrderBy (Find_query flt f) ts) = ts"
  by (simp add: OrderBy_def Find_query_def Let_def Where_def base_query_def split: option.splits)

theorem Find_ordering:
  "(flt_Sort flt = [] \<longrightarrow>
      ParseOrder (flt_Sort (resolve_sort flt)) columns = Inr [(''id'', False)] \<and>
      sorted_wrt (\<lambda>a b. mod_ID a \<le> mod_ID b) (fst (fst (Find w flt)))) \<and>
   ((\<exists>t \<in> set (order_terms (flt_Sort flt)). fst t \<notin> set columns) \<longrightarrow>
      (\<exists>c. c \<notin> set columns \<and> Find w flt = (([], flt, Some (OrderSpecInvalid c)), w)))"
proof (intro conjI impI)
  assume "flt_Sort flt = []"
  then show p: "ParseOrder (flt_Sort (resolve_sort flt)) columns = Inr [(''id'', False)]"
    by (simp add: resolve_sort_def ParseOrder_default)
  show "sorted_wrt (\<lambda>a b. mod_ID a \<le> mod_ID b) (fst (fst (Find w flt)))"
    by (simp add: Find_unfold [OF p] Let_def sorted_run_query_id split: option.splits)
next
  assume bad: "\<exists>t \<in> set (order_terms (flt_Sort flt)). fst t \<notin> set columns"
  then have "flt_Sort flt \<noteq> []" by (auto simp: order_terms_def)
  then have r: "resolve_sort flt = flt" by (simp add: resolve_sort_def)
  from check_terms_invalid [OF bad] obtain c where
    c: "c \<notin> set columns" "ParseOrder (flt_Sort flt) columns = Inl (OrderSpecInvalid c)"
    by (auto simp: ParseOrder_def)
  then have "Find w flt = (([], flt, Some (OrderSpecInvalid c)), w)"
    by (simp add: Find_def r Let_def)
  with c(1) show "\<exists>c. c \<notin> set columns \<and> Find w flt = (([], flt, Some (OrderSpecInvalid c)), w)"
    by blast
qed

theorem Find_ordering_witness:
  "sorted_wrt (\<lambda>a b. mod_ID a \<le> mod_ID b) (fst (fst (Find example_world example_filter))) \<and>
   (\<exists>c. c \<notin> set columns \<and>
        Find example_world (example_filter\<lparr>flt_Sort := ''name desc, idx''\<rparr>) =
          (([], example_filter\<lparr>flt_Sort := ''name desc, idx''\<rparr>, Some (OrderSpecInvalid c)),
           example_world))"
proof -
  have a: "flt_Sort example_filter = []" by (simp add: example_filter_def)
  have "\<exists>t \<in> set (order_terms ''name desc, idx''). fst t \<notin> set columns"
    by code_simp
  then have b: "\<exists>t \<in> set (order_terms (flt_Sort (example_filter\<lparr>flt_Sort := ''name desc, idx''\<rparr>))).
                  fst t \<notin> set columns"
    by simp
  from Find_ordering [of example_filter example_world] a
    Find_ordering [of "example_filter\<lparr>flt_Sort := ''name desc, idx''\<rparr>" example_world] b
  show ?thesis by blast
qed

text \<open>
  C9.  The condition on \<open>rel_namespace\<close> is among the conditions of the query exactly
  when the filter's \<open>NamespaceID\<close> is greater than zero.  With \<open>NamespaceID = 0\<close> a
  successful \<open>Find\<close> counts every active module that passes the other conditions of the
  filter, whatever its namespace, and the rows returned are among these.
\<close>

lemma Find_namespace_condition:
  "(\<exists>v. Eq ''rel_namespace'' v \<in> set (wheres (Find_query flt (resolve_sort flt)))) =
      (0 < flt_NamespaceID flt)"
  by (auto simp: wheres_Find_query split: option.splits if_splits)

lemma Find_all_namespaces:
  assumes z: "flt_NamespaceID flt = 0" and F: "Find w flt = ((ms, f, None), w')"
  shows "flt_Count f = length [m \<leftarrow> module_rows w. other_conditions flt m] \<and>
      set ms \<subseteq> {m \<in> set (module_rows w). other_conditions flt m}"
proof -
  have oc: "other_conditions (resolve_sort flt) = other_conditions flt"
    by (intro ext) (simp add: other_conditions_def resolve_sort_def)
  from F obtain ts where p: "ParseOrder (flt_Sort (resolve_sort flt)) columns = Inr ts"
    by (cases "ParseOrder (flt_Sort (resolve_sort flt)) columns") (simp_all add: Find_def Let_def)
  let ?q = "OrderBy (Find_query flt (resolve_sort flt)) ts"
  have m: "matching ?q (module_rows w) = [m \<leftarrow> module_rows w. other_conditions flt m]"
    by (simp add: matching_Find_query z oc)
  have "set (run_query ?q (module_rows w)) = set (matching ?q (module_rows w))"
    by (simp add: run_query_def)
  then have "set (page_rows (flt_Page flt) (flt_PerPage flt) (run_query ?q (module_rows w)))
      \<subseteq> set (matching ?q (module_rows w))"
    unfolding page_rows_def using set_take_subset set_drop_subset by fast
  with F m show ?thesis
    by (auto simp add: Find_unfold [OF p] Let_def split: option.splits if_splits)
qed

theorem Find_namespace_zero:
  "((\<exists>v. Eq ''rel_namespace'' v \<in> set (wheres (Find_query flt (resolve_sort flt)))) =
      (0 < flt_NamespaceID flt)) \<and>
   (flt_NamespaceID flt = 0 \<longrightarrow> Find w flt = ((ms, f, None), w') \<longrightarrow>
      flt_Count f = length [m \<leftarrow> module_rows w. other_conditions flt m] \<and>
      set ms \<subseteq> {m \<in> set (module_rows w). other_conditions flt m})"
  using Find_namespace_condition [of flt] Find_all_namespaces [of flt w ms f w'] by blast

theorem Find_namespace_zero_witness:
  "flt_Count (fst (snd (fst (Find example_world example_filter)))) = 2 \<and>
   map mod_NamespaceID (fst (fst (Find example_world example_filter))) = [2, 1]"
proof -
  obtain ms f w' where F: "Find example_world example_filter = ((ms, f, None), w')"
    and ms: "map mod_NamespaceID ms = [2, 1]"
    by (simp add: Find_def Let_def ParseOrder_default resolve_sort_def example_filter_def
        Count_def FetchPaged_def issue_def example_world_def matching_def run_query_def
        Find_query_def OrderBy_def base_query_def example_modules_def page_rows_def
        sort_by_def column_value_def)
  have z: "flt_NamespaceID example_filter = 0" by (simp add: example_filter_def)
  have "length [m \<leftarrow> module_rows example_world. other_conditions example_filter m] = 2"
    by (simp add: example_world_def example_modules_def other_conditions_def example_filter_def)
  with Find_namespace_zero [of example_filter example_world ms f w'] z F ms
  show ?thesis by simp
qed

section \<open>Field reconciliation\<close>

lemma FindFieldByID_None: "(FindFieldByID fs i = None) = (i \<notin> ID ` set fs)"
  by (auto simp: FindFieldByID_def find_None_iff)

lemma FindFieldByID_Some: "FindFieldByID fs i = Some e \<Longrightarrow> e \<in> set fs \<and> ID e = i"
  by (auto simp: FindFieldByID_def find_Some_iff)

lemma FindFieldByID_exists: "e \<in> set fs \<Longrightarrow> \<exists>e'. FindFieldByID fs (ID e) = Some e'"
  by (cases "FindFieldByID fs (ID e)") (auto simp: FindFieldByID_None)

lemma FindFieldByID_distinct:
  "distinct (map ID fs) \<Longrightarrow> e \<in> set fs \<Longrightarrow> FindFieldByID fs (ID e) = Some e"
proof (induction fs)
  case Nil
  then show ?case by simp
next
  case (Cons a fs)
  then show ?case by (auto simp: FindFieldByID_def)
qed

lemma distinct_insort_by:
  "distinct (map f (insort_by le x xs)) = (f x \<notin> f ` set xs \<and> distinct (map f xs))"
  by (induction xs) auto

lemma distinct_sort_by: "distinct (map f (sort_by le xs)) = distinct (map f xs)"
  by (induction xs) (simp_all add: sort_by_Cons distinct_insort_by)

lemma set_active_fields:
  "set (active_fields rows [m]) = {r \<in> set rows. ModuleID r = m \<and> DeletedAt r = None}"
  by (auto simp: active_fields_def)

lemma distinct_active_fields:
  "distinct (map ID rows) \<Longrightarrow> distinct (map ID (active_fields rows ms))"
  by (simp add: active_fields_def distinct_sort_by distinct_map_filter)

subsection \<open>One field\<close>

lemma reconcile_matched:
  assumes "FindFieldByID existing (ID f) = Some e" and "ID f \<noteq> 0"
  shows "reconcile w m existing True idx f =
           (f\<lparr>CreatedAt := CreatedAt e, Name := Name e, Kind := Kind e,
              ModuleID := m, Place := int idx, DeletedAt := None\<rparr>, w)"
    and "reconcile w m existing False idx f =
           (f\<lparr>CreatedAt := CreatedAt e, UpdatedAt := Some (clock w (clock_reads w)),
              ModuleID := m, Place := int idx, DeletedAt := None\<rparr>,
            w\<lparr>clock_reads := Suc (clock_reads w)\<rparr>)"
  using assms by (simp_all add: reconcile_def SetCurrentTimeRounded_def)

lemma reconcile_fresh:
  assumes "FindFieldByID existing (ID f) = None"
  shows "reconcile w m existing hasRecords idx f =
           (f\<lparr>ID := id_source w (ids_drawn w), CreatedAt := clock w (clock_reads w),
              ModuleID := m, Place := int idx, DeletedAt := None\<rparr>,
            w\<lparr>ids_drawn := Suc (ids_drawn w), clock_reads := Suc (clock_reads w)\<rparr>)"
  using assms by (simp add: reconcile_def SetCurrentTimeRounded_def NextID_def)

lemma reconcile_frame:
  assumes "reconcile w m existing hasRecords idx f = (f', w')"
  shows "field_rows w' = field_rows w \<and> module_rows w' = module_rows w \<and> trace w' = trace w \<and>
         faults w' = faults w \<and> id_source w' = id_source w \<and> clock w' = clock w \<and>
         ModuleID f' = m \<and> Place f' = int idx \<and> DeletedAt f' = None"
  using assms
  by (auto simp: reconcile_def SetCurrentTimeRounded_def NextID_def Let_def
      split: option.splits if_splits)

lemma reconcile_storage:
  "reconcile (w\<lparr>trace := t, field_rows := r\<rparr>) m existing hasRecords idx f =
     (case reconcile w m existing hasRecords idx f of
        (f', w1) \<Rightarrow> (f', w1\<lparr>trace := t, field_rows := r\<rparr>))"
  by (simp add: reconcile_def SetCurrentTimeRounded_def NextID_def Let_def
      split: option.splits)

lemma reconciled_storage:
  "reconciled (w\<lparr>trace := t, field_rows := r\<rparr>) m existing hasRecords idx fs =
   reconciled w m existing hasRecords idx fs"
proof (induction fs arbitrary: w idx)
  case Nil
  show ?case by simp
next
  case (Cons f fs)
  obtain f' w1 where r: "reconcile w m existing hasRecords idx f = (f', w1)"
    by (cases "reconcile w m existing hasRecords idx f")
  show ?case by (simp add: reconcile_storage r Cons.IH)
qed

lemma length_reconciled [simp]: "length (reconciled w m existing hasRecords idx fs) = length fs"
proof (induction fs arbitrary: w idx)
  case Nil
  show ?case by simp
next
  case (Cons f fs)
  then show ?case by (simp split: prod.splits)
qed

subsection \<open>The storage statements\<close>

lemma Replace_None:
  assumes "Replace w f = (None, w')"
  shows "w' = w\<lparr>trace := trace w @ [ReplaceFieldCall (ID f)],
                 field_rows := replace_row (field_rows w) f\<rparr>"
  using assms by (auto simp: Replace_def issue_def split: option.splits)

lemma Replace_Some:
  assumes "Replace w f = (Some e, w')"
  shows "w' = w\<lparr>trace := trace w @ [ReplaceFieldCall (ID f)]\<rparr>"
  using assms by (auto simp: Replace_def issue_def split: option.splits)

lemma Replace_no_fault:
  "faults w (length (trace w)) = None \<Longrightarrow> fst (Replace w f) = None"
  by (simp add: Replace_def issue_def)

lemma deleteFieldByID_None:
  assumes "deleteFieldByID w m i = (None, w')"
  shows "w' = w\<lparr>trace := trace w @ [DeleteFieldCall m i],
                 field_rows := delete_row (field_rows w) m i\<rparr>"
  using assms by (auto simp: deleteFieldByID_def issue_def split: option.splits)

lemma deleteFieldByID_Some:
  assumes "deleteFieldByID w m i = (Some e, w')"
  shows "w' = w\<lparr>trace := trace w @ [DeleteFieldCall m i]\<rparr>"
  using assms by (auto simp: deleteFieldByID_def issue_def split: option.splits)

lemma other_modules_delete_row [simp]:
  "other_modules (delete_row rows m i) m = other_modules rows m"
  unfolding other_modules_def delete_row_def filter_filter
  by (rule filter_cong [OF refl]) auto

lemma set_delete_row: "set (delete_row rows m i) \<subseteq> set rows"
  by (auto simp: delete_row_def)

subsection \<open>The removal phase\<close>

lemma after_removal_Nil [simp]: "after_removal rows m ff [] = rows"
  by (simp add: after_removal_def)

lemma after_removal_kept:
  "ID e \<in> ID ` set ff \<Longrightarrow> after_removal rows m ff (e # es) = after_removal rows m ff es"
  unfolding after_removal_def by (rule filter_cong [OF refl]) auto

lemma after_removal_removed:
  "ID e \<notin> ID ` set ff \<Longrightarrow>
   after_removal (delete_row rows m (ID e)) m ff es = after_removal rows m ff (e # es)"
  unfolding after_removal_def delete_row_def filter_filter
  by (rule filter_cong [OF refl]) auto

lemma Walk_remove_None:
  assumes "Walk_remove w m ff ex = (None, w')"
  shows "w' = w\<lparr>trace := trace w @ map (DeleteFieldCall m) [i \<leftarrow> map ID ex. i \<notin> ID ` set ff],
                 field_rows := after_removal (field_rows w) m ff ex\<rparr>"
  using assms
proof (induction ex arbitrary: w)
  case Nil
  then show ?case by simp
next
  case (Cons e es)
  show ?case
  proof (cases "ID e \<in> ID ` set ff")
    case True
    with Cons.prems have "Walk_remove w m ff es = (None, w')"
      by (simp add: FindFieldByID_None)
    from Cons.IH [OF this] True show ?thesis
      by (simp add: after_removal_kept)
  next
    case False
    with Cons.prems obtain w1 where d: "deleteFieldByID w m (ID e) = (None, w1)"
      and r: "Walk_remove w1 m ff es = (None, w')"
      by (auto simp: FindFieldByID_None split: prod.splits option.splits)
    from Cons.IH [OF r] deleteFieldByID_None [OF d] False show ?thesis
      by (simp add: after_removal_removed)
  qed
qed

lemma Walk_remove_frame:
  assumes "Walk_remove w m ff ex = (r, w')"
  shows "other_modules (field_rows w') m = other_modules (field_rows w) m \<and>
         set (field_rows w') \<subseteq> set (field_rows w) \<and>
         ids_drawn w' = ids_drawn w \<and> id_source w' = id_source w"
  using assms
proof (induction ex arbitrary: w)
  case Nil
  then show ?case by simp
next
  case (Cons e es)
  show ?case
  proof (cases "FindFieldByID ff (ID e) = None")
    case False
    with Cons show ?thesis by simp
  next
    case True
    obtain q w1 where d: "deleteFieldByID w m (ID e) = (q, w1)"
      by (cases "deleteFieldByID w m (ID e)")
    show ?thesis
    proof (cases q)
      case None
      with d True Cons.prems have "Walk_remove w1 m ff es = (r, w')" by simp
      from Cons.IH [OF this] deleteFieldByID_None [OF d [unfolded None]]
        set_delete_row [of "field_rows w" m "ID e"]
      show ?thesis by auto
    next
      case (Some err)
      with d True Cons.prems have "w' = w1" by simp
      with deleteFieldByID_Some [OF d [unfolded Some]] show ?thesis by simp
    qed
  qed
qed

lemma Walk_remove_nothing:
  "\<forall>e \<in> set ex. ID e \<in> ID ` set ff \<Longrightarrow> Walk_remove w m ff ex = (None, w)"
  by (induction ex) (simp_all add: FindFieldByID_None)

lemma Walk_remove_no_fault:
  "\<forall>n. faults w n = None \<Longrightarrow> fst (Walk_remove w m ff ex) = None"
proof (induction ex arbitrary: w)
  case Nil
  show ?case by simp
next
  case (Cons e es)
  have "\<forall>n. faults (w\<lparr>trace := trace w @ [DeleteFieldCall m (ID e)],
      field_rows := delete_row (field_rows w) m (ID e)\<rparr>) n = None"
    using Cons.prems by simp
  from Cons.IH [OF this] Cons.IH [OF Cons.prems] Cons.prems show ?case
    by (simp add: deleteFieldByID_def issue_def)
qed

subsection \<open>The upsert loop\<close>

lemma reconciled_world_storage:
  "reconciled_world (w\<lparr>trace := t, field_rows := r\<rparr>) m existing hasRecords idx fs =
   (reconciled_world w m existing hasRecords idx fs)\<lparr>trace := t, field_rows := r\<rparr>"
proof (induction fs arbitrary: w idx)
  case Nil
  show ?case by simp
next
  case (Cons f fs)
  obtain f' w1 where r: "reconcile w m existing hasRecords idx f = (f', w1)"
    by (cases "reconcile w m existing hasRecords idx f")
  show ?case by (simp add: reconcile_storage r Cons.IH)
qed

lemma reconciled_world_frame:
  "field_rows (reconciled_world w m existing hasRecords idx fs) = field_rows w \<and>
   module_rows (reconciled_world w m existing hasRecords idx fs) = module_rows w \<and>
   trace (reconciled_world w m existing hasRecords idx fs) = trace w \<and>
   faults (reconciled_world w m existing hasRecords idx fs) = faults w \<and>
   id_source (reconciled_world w m existing hasRecords idx fs) = id_source w \<and>
   clock (reconciled_world w m existing hasRecords idx fs) = clock w"
proof (induction fs arbitrary: w idx)
  case Nil
  show ?case by simp
next
  case (Cons f fs)
  obtain f' w1 where r: "reconcile w m existing hasRecords idx f = (f', w1)"
    by (cases "reconcile w m existing hasRecords idx f")
  from reconcile_frame [OF r] Cons.IH [of w1 "Suc idx"] show ?case by (simp add: r)
qed

lemma upsert_fields_None:
  assumes "upsert_fields w m existing hasRecords idx fs = (None, fs', w')"
  shows "fs' = reconciled w m existing hasRecords idx fs \<and>
         w' = (reconciled_world w m existing hasRecords idx fs)
                \<lparr>trace := trace w @ map (\<lambda>f. ReplaceFieldCall (ID f)) fs',
                 field_rows := foldl replace_row (field_rows w) fs'\<rparr>"
  using assms
proof (induction fs arbitrary: w idx fs' w')
  case Nil
  then show ?case by simp
next
  case (Cons f fs)
  obtain f' w1 where r: "reconcile w m existing hasRecords idx f = (f', w1)"
    by (cases "reconcile w m existing hasRecords idx f")
  obtain q w2 where p: "Replace w1 f' = (q, w2)" by (cases "Replace w1 f'")
  from Cons.prems r p have q: "q = None" by (cases q) simp_all
  obtain fs'' where u: "upsert_fields w2 m existing hasRecords (Suc idx) fs = (None, fs'', w')"
    and fs': "fs' = f' # fs''"
    using Cons.prems r p q by (auto split: prod.splits)
  note w2 = Replace_None [OF p [unfolded q]]
  from reconcile_frame [OF r] have fr: "field_rows w1 = field_rows w" "trace w1 = trace w"
    by simp_all
  from Cons.IH [OF u] show ?case
    by (simp add: r fs' w2 fr reconciled_storage reconciled_world_storage)
qed

lemma upsert_fields_frame:
  assumes "upsert_fields w m existing hasRecords idx fs = (r, fs', w')"
  shows "\<exists>k \<le> length fs.
           field_rows w' = foldl replace_row (field_rows w)
                             (take k (reconciled w m existing hasRecords idx fs))"
  using assms
proof (induction fs arbitrary: w idx fs' w')
  case Nil
  then show ?case by simp
next
  case (Cons f fs)
  obtain f' w1 where rc: "reconcile w m existing hasRecords idx f = (f', w1)"
    by (cases "reconcile w m existing hasRecords idx f")
  obtain q w2 where p: "Replace w1 f' = (q, w2)" by (cases "Replace w1 f'")
  from reconcile_frame [OF rc] have fr: "field_rows w1 = field_rows w" "trace w1 = trace w"
    by simp_all
  show ?case
  proof (cases q)
    case (Some err)
    with Cons.prems rc p have "w' = w2" by simp
    with Replace_Some [OF p [unfolded Some]] fr
    have "field_rows w' = foldl replace_row (field_rows w)
            (take 0 (reconciled w m existing hasRecords idx (f # fs)))"
      by simp
    then show ?thesis by blast
  next
    case None
    note w2 = Replace_None [OF p [unfolded None]]
    from Cons.prems rc p None obtain fs'' where
      u: "upsert_fields w2 m existing hasRecords (Suc idx) fs = (r, fs'', w')"
      by (auto split: prod.splits)
    from Cons.IH [OF u] obtain k where k: "k \<le> length fs"
      "field_rows w' = foldl replace_row (field_rows w2)
         (take k (reconciled w2 m existing hasRecords (Suc idx) fs))"
      by blast
    have "field_rows w' = foldl replace_row (field_rows w)
            (take (Suc k) (reconciled w m existing hasRecords idx (f # fs)))"
      using k(2) by (simp add: rc w2 fr reconciled_storage)
    with k(1) show ?thesis by (intro exI [of _ "Suc k"]) simp
  qed
qed

lemma upsert_fields_no_fault:
  "\<forall>n. faults w n = None \<Longrightarrow> fst (upsert_fields w m existing hasRecords idx fs) = None"
proof (induction fs arbitrary: w idx)
  case Nil
  show ?case by simp
next
  case (Cons f fs)
  obtain f' w1 where rc: "reconcile w m existing hasRecords idx f = (f', w1)"
    by (cases "reconcile w m existing hasRecords idx f")
  from reconcile_frame [OF rc] Cons.prems have f1: "\<forall>n. faults w1 n = None" by simp
  then have "\<forall>n. faults (w1\<lparr>trace := trace w1 @ [ReplaceFieldCall (ID f')],
      field_rows := replace_row (field_rows w1) f'\<rparr>) n = None"
    by simp
  from Cons.IH [OF this, of "Suc idx"] f1 show ?case
    by (cases "upsert_fields (w1\<lparr>trace := trace w1 @ [ReplaceFieldCall (ID f')],
          field_rows := replace_row (field_rows w1) f'\<rparr>) m existing hasRecords (Suc idx) fs")
      (simp add: rc Replace_def issue_def)
qed

subsection \<open>The fields as written\<close>

lemma reconcile_eq:
  assumes "0 \<notin> ID ` set existing"
  shows "reconcile w m existing hasRecords idx f =
     (case FindFieldByID existing (ID f) of
        Some e \<Rightarrow>
          (kept_field f e hasRecords (clock w (clock_reads w)) m idx,
           if hasRecords then w else w\<lparr>clock_reads := Suc (clock_reads w)\<rparr>)
      | None \<Rightarrow>
          (new_row f (id_source w (ids_drawn w)) (clock w (clock_reads w)) m idx,
           w\<lparr>ids_drawn := Suc (ids_drawn w), clock_reads := Suc (clock_reads w)\<rparr>))"
proof (cases "FindFieldByID existing (ID f)")
  case None
  then show ?thesis by (simp add: reconcile_fresh new_row_def)
next
  case (Some e)
  with FindFieldByID_Some [OF Some] assms have "ID f \<noteq> 0" by auto
  from reconcile_matched [OF Some this] Some show ?thesis
    by (cases hasRecords) (simp_all add: kept_field_def)
qed

lemma fresh_before_0 [simp]: "fresh_before existing fs 0 = 0"
  by (simp add: fresh_before_def)

lemma fresh_before_Suc:
  "fresh_before existing (f # fs) (Suc i) =
     (if FindFieldByID existing (ID f) = None then 1 else 0) + fresh_before existing fs i"
  by (simp add: fresh_before_def)

lemma fresh_before_le: "fresh_before existing fs i \<le> i"
  unfolding fresh_before_def
  by (rule order_trans [OF length_filter_le]) simp

lemma reconciled_nth:
  assumes "0 \<notin> ID ` set existing" and "i < length fs"
  shows "reconciled w m existing hasRecords idx fs ! i =
     (case FindFieldByID existing (ID (fs ! i)) of
        Some e \<Rightarrow>
          kept_field (fs ! i) e hasRecords
            (clock w (clock_reads w + (if hasRecords then fresh_before existing fs i else i)))
            m (idx + i)
      | None \<Rightarrow>
          new_row (fs ! i) (id_source w (ids_drawn w + fresh_before existing fs i))
            (clock w (clock_reads w + (if hasRecords then fresh_before existing fs i else i)))
            m (idx + i))"
  using assms(2)
proof (induction fs arbitrary: w idx i)
  case Nil
  then show ?case by simp
next
  case (Cons f fs)
  note eq = reconcile_eq [OF assms(1)]
  show ?case
  proof (cases i)
    case 0
    then show ?thesis by (simp add: eq split: option.splits)
  next
    case (Suc j)
    with Cons.prems have j: "j < length fs" by simp
    obtain f' w1 where r: "reconcile w m existing hasRecords idx f = (f', w1)"
      by (cases "reconcile w m existing hasRecords idx f")
    have w1: "id_source w1 = id_source w" "clock w1 = clock w"
      "ids_drawn w1 = ids_drawn w + (if FindFieldByID existing (ID f) = None then 1 else 0)"
      "clock_reads w1 = clock_reads w +
         (if hasRecords then (if FindFieldByID existing (ID f) = None then 1 else 0) else 1)"
      using r by (auto simp: eq split: option.splits if_splits)
    have step: "reconciled w m existing hasRecords idx (f # fs) ! Suc j =
          reconciled w1 m existing hasRecords (Suc idx) fs ! j"
      by (simp add: r)
    have nth: "(f # fs) ! Suc j = fs ! j" by simp
    show ?thesis
      unfolding Suc step nth Cons.IH [OF j] w1 fresh_before_Suc
      by (simp add: add.assoc split: option.splits)
  qed
qed

lemma reconciled_world_counters:
  assumes "0 \<notin> ID ` set existing"
  shows "ids_drawn (reconciled_world w m existing hasRecords idx fs) =
           ids_drawn w + fresh_before existing fs (length fs) \<and>
         clock_reads (reconciled_world w m existing hasRecords idx fs) =
           clock_reads w + (if hasRecords then fresh_before existing fs (length fs) else length fs)"
proof (induction fs arbitrary: w idx)
  case Nil
  show ?case by simp
next
  case (Cons f fs)
  note eq = reconcile_eq [OF assms(1)]
  show ?case
  proof (cases "FindFieldByID existing (ID f)")
    case None
    from Cons.IH [of "w\<lparr>ids_drawn := Suc (ids_drawn w), clock_reads := Suc (clock_reads w)\<rparr>" "Suc idx"]
    show ?thesis by (simp add: eq None fresh_before_Suc)
  next
    case (Some e)
    show ?thesis
    proof (cases hasRecords)
      case True
      from Cons.IH [of w "Suc idx"] show ?thesis
        by (simp add: eq Some fresh_before_Suc True)
    next
      case False
      from Cons.IH [of "w\<lparr>clock_reads := Suc (clock_reads w)\<rparr>" "Suc idx"] show ?thesis
        by (simp add: eq Some fresh_before_Suc False)
    qed
  qed
qed

subsection \<open>The whole call\<close>

lemma FindFields_one:
  "FindFields w [m] =
     (case faults w (length (trace w)) of
        Some e \<Rightarrow> (Inl (StorageFailure e), w\<lparr>trace := trace w @ [SelectFieldsCall [m]]\<rparr>)
      | None \<Rightarrow> (Inr (active_fields (field_rows w) [m]),
                  w\<lparr>trace := trace w @ [SelectFieldsCall [m]]\<rparr>))"
  by (simp add: FindFields_def issue_def split: option.splits)

lemma UpdateFields_None:
  assumes "UpdateFields w m ff hasRecords = (None, ff', w')"
  defines "existing \<equiv> active_fields (field_rows w) [m]"
  shows "ff' = reconciled w m existing hasRecords 0 ff \<and>
         w' = (reconciled_world w m existing hasRecords 0 ff)
                \<lparr>trace := trace w @ SelectFieldsCall [m] #
                   map (DeleteFieldCall m) [i \<leftarrow> map ID existing. i \<notin> ID ` set ff] @
                   map (\<lambda>f. ReplaceFieldCall (ID f)) ff',
                 field_rows := foldl replace_row (after_removal (field_rows w) m ff existing) ff'\<rparr>"
proof -
  let ?w1 = "w\<lparr>trace := trace w @ [SelectFieldsCall [m]]\<rparr>"
  from assms(1) have nf: "faults w (length (trace w)) = None"
    by (cases "faults w (length (trace w))") (simp_all add: UpdateFields_def FindFields_one)
  obtain q w2 where wr: "Walk_remove ?w1 m ff existing = (q, w2)"
    by (cases "Walk_remove ?w1 m ff existing")
  from assms(1) nf wr have q: "q = None"
    by (cases q) (simp_all add: UpdateFields_def FindFields_one existing_def)
  note w2 = Walk_remove_None [OF wr [unfolded q]]
  from assms(1) nf wr q have u: "upsert_fields w2 m existing hasRecords 0 ff = (None, ff', w')"
    by (simp add: UpdateFields_def FindFields_one existing_def)
  have r: "reconciled w2 m existing hasRecords 0 ff = reconciled w m existing hasRecords 0 ff"
    "reconciled_world w2 m existing hasRecords 0 ff =
       (reconciled_world w m existing hasRecords 0 ff)\<lparr>trace := trace w2, field_rows := field_rows w2\<rparr>"
    using reconciled_storage [where w = w and t = "trace w2" and r = "field_rows w2"]
      reconciled_world_storage [where w = w and t = "trace w2" and r = "field_rows w2"]
    by (simp_all add: w2)
  from upsert_fields_None [OF u] show ?thesis
    by (simp add: r) (simp add: w2)
qed

lemma UpdateFields_frame:
  assumes "UpdateFields w m ff hasRecords = (r, ff', w')"
  shows "\<exists>rows k. other_modules rows m = other_modules (field_rows w) m \<and>
           set rows \<subseteq> set (field_rows w) \<and>
           field_rows w' = foldl replace_row rows
             (take k (reconciled w m (active_fields (field_rows w) [m]) hasRecords 0 ff))"
proof -
  let ?ex = "active_fields (field_rows w) [m]"
  let ?w1 = "w\<lparr>trace := trace w @ [SelectFieldsCall [m]]\<rparr>"
  let ?goal = "\<lambda>rows k. other_modules rows m = other_modules (field_rows w) m \<and>
           set rows \<subseteq> set (field_rows w) \<and>
           field_rows w' = foldl replace_row rows (take k (reconciled w m ?ex hasRecords 0 ff))"
  show ?thesis
  proof (cases "faults w (length (trace w))")
    case (Some e)
    with assms have "w' = ?w1" by (simp add: UpdateFields_def FindFields_one)
    then have "?goal (field_rows w) 0" by simp
    then show ?thesis by blast
  next
    case None
    obtain q w2 where wr: "Walk_remove ?w1 m ff ?ex = (q, w2)"
      by (cases "Walk_remove ?w1 m ff ?ex")
    from Walk_remove_frame [OF wr] have fr:
      "other_modules (field_rows w2) m = other_modules (field_rows w) m"
      "set (field_rows w2) \<subseteq> set (field_rows w)"
      by simp_all
    show ?thesis
    proof (cases q)
      case (Some err)
      with assms None wr have "w' = w2" by (simp add: UpdateFields_def FindFields_one)
      with fr have "?goal (field_rows w2) 0" by simp
      then show ?thesis by blast
    next
      case qNone: None
      with assms None wr have u: "upsert_fields w2 m ?ex hasRecords 0 ff = (r, ff', w')"
        by (simp add: UpdateFields_def FindFields_one)
      have "reconciled w2 m ?ex hasRecords 0 ff = reconciled w m ?ex hasRecords 0 ff"
        using reconciled_storage [where w = w and t = "trace w2" and r = "field_rows w2"]
        by (simp add: Walk_remove_None [OF wr [unfolded qNone]])
      with upsert_fields_frame [OF u] fr show ?thesis by auto
    qed
  qed
qed

lemma UpdateFields_no_fault:
  assumes "\<forall>n. faults w n = None"
  shows "fst (UpdateFields w m ff hasRecords) = None"
proof -
  let ?w1 = "w\<lparr>trace := trace w @ [SelectFieldsCall [m]]\<rparr>"
  let ?ex = "active_fields (field_rows w) [m]"
  obtain q w2 where wr: "Walk_remove ?w1 m ff ?ex = (q, w2)"
    by (cases "Walk_remove ?w1 m ff ?ex")
  from assms have f1: "\<forall>n. faults ?w1 n = None" by simp
  from Walk_remove_no_fault [OF f1, of m ff ?ex] wr have q: "q = None" by simp
  from Walk_remove_None [OF wr [unfolded q]] assms have "\<forall>n. faults w2 n = None" by simp
  from upsert_fields_no_fault [OF this, of m ?ex hasRecords 0 ff] assms wr q show ?thesis
    by (simp add: UpdateFields_def FindFields_one)
qed

subsection \<open>The table after a run of upserts\<close>

lemma untouched_Nil [simp]: "untouched rows [] = rows"
  by (simp add: untouched_def)

lemma untouched_replace_row:
  "untouched (replace_row rows f) fs =
     untouched rows (f # fs) @ (if ID f \<in> ID ` set fs then [] else [f])"
proof -
  have "[r \<leftarrow> [r \<leftarrow> rows. ID r \<noteq> ID f]. ID r \<notin> ID ` set fs] =
        [r \<leftarrow> rows. ID r \<notin> ID ` set (f # fs)]"
    unfolding filter_filter by (rule filter_cong [OF refl]) auto
  then show ?thesis by (simp add: untouched_def replace_row_def)
qed

lemma foldl_replace_row: "foldl replace_row rows fs = untouched rows fs @ written fs"
proof (induction fs arbitrary: rows)
  case Nil
  show ?case by simp
next
  case (Cons f fs)
  show ?case by (simp add: Cons.IH untouched_replace_row)
qed

lemma set_written_subset: "set (written fs) \<subseteq> set fs"
  by (induction fs) auto

lemma ID_written: "ID ` set (written fs) = ID ` set fs"
  by (induction fs) auto

lemma distinct_written: "distinct (map ID (written fs))"
  by (induction fs) (auto simp: ID_written)

lemma written_distinct: "distinct (map ID fs) \<Longrightarrow> written fs = fs"
  by (induction fs) auto

lemma written_last:
  assumes "i < length fs" and "\<forall>j. i < j \<and> j < length fs \<longrightarrow> ID (fs ! j) \<noteq> ID (fs ! i)"
  shows "fs ! i \<in> set (written fs)"
  using assms
proof (induction fs arbitrary: i)
  case Nil
  then show ?case by simp
next
  case (Cons f fs)
  show ?case
  proof (cases i)
    case 0
    have "ID f \<notin> ID ` set fs"
    proof
      assume "ID f \<in> ID ` set fs"
      then obtain j where "j < length fs" "ID (fs ! j) = ID f"
        by (auto simp: in_set_conv_nth)
      with Cons.prems(2) [rule_format, of "Suc j"] 0 show False by simp
    qed
    with 0 show ?thesis by simp
  next
    case (Suc k)
    with Cons.prems have k: "k < length fs" by simp
    have "\<forall>j. k < j \<and> j < length fs \<longrightarrow> ID (fs ! j) \<noteq> ID (fs ! k)"
    proof (intro allI impI)
      fix j assume "k < j \<and> j < length fs"
      with Cons.prems(2) [rule_format, of "Suc j"] Suc show "ID (fs ! j) \<noteq> ID (fs ! k)" by simp
    qed
    from Cons.IH [OF k this] Suc show ?thesis by simp
  qed
qed

lemma untouched_fresh:
  "ID ` set fs \<inter> ID ` set rows = {} \<Longrightarrow> untouched rows fs = rows"
  unfolding untouched_def by (rule filter_True) auto

lemma set_untouched: "set (untouched rows fs) = {r \<in> set rows. ID r \<notin> ID ` set fs}"
  by (simp add: untouched_def)

subsection \<open>Reconciling against a module without fields\<close>

lemma sort_by_sorted: "sorted_wrt le xs \<Longrightarrow> sort_by le xs = xs"
proof (induction xs)
  case Nil
  show ?case by simp
next
  case (Cons x xs)
  then have "sort_by le (x # xs) = insort_by le x xs" by (simp add: sort_by_Cons)
  also have "\<dots> = x # xs" using Cons.prems by (cases xs) simp_all
  finally show ?case .
qed

lemma sort_by_empty: "(sort_by le xs = []) = (xs = [])"
  by (metis set_sort_by set_empty)

lemma active_fields_empty:
  "(active_fields rows [m] = []) = ([r \<leftarrow> rows. ModuleID r = m \<and> DeletedAt r = None] = [])"
  by (simp add: active_fields_def sort_by_empty)

lemma active_fields_append_new:
  assumes "active_fields rows [m] = []"
    and "\<forall>i < length fs. ModuleID (fs ! i) = m \<and> Place (fs ! i) = int i \<and> DeletedAt (fs ! i) = None"
  shows "active_fields (rows @ fs) [m] = fs"
proof -
  have all: "\<forall>f \<in> set fs. ModuleID f = m \<and> DeletedAt f = None"
    using assms(2) by (auto simp: in_set_conv_nth)
  then have keep: "[r \<leftarrow> fs. ModuleID r = m \<and> DeletedAt r = None] = fs"
    by (intro filter_True) simp
  have "sorted_wrt field_le fs"
    unfolding sorted_wrt_iff_nth_less using assms(2) by (simp add: field_le_def)
  then have "sort_by field_le fs = fs" by (rule sort_by_sorted)
  with assms(1) keep show ?thesis
    by (simp add: active_fields_empty) (simp add: active_fields_def)
qed

text \<open>
  C1.  When the module has no active field, a successful \<open>UpdateFields\<close> with \<open>n\<close>
  desired fields leaves it with exactly these \<open>n\<close> active fields, in order: the field
  from index \<open>i\<close> has \<open>Place = i\<close>, the next unused identifier of the generator as its ID
  and a \<open>CreatedAt\<close> read from the clock during the call; its other attributes are the
  ones submitted.  The IDs are pairwise distinct, the generator issuing distinct
  identifiers that no stored row uses.
\<close>

theorem UpdateFields_empty_module:
  assumes "UpdateFields w m ff hasRecords = (None, ff', w')"
    and "active_fields (field_rows w) [m] = []"
    and "fresh_ids w (length ff)"
  shows "active_fields (field_rows w') [m] = ff' \<and>
         length ff' = length ff \<and>
         (\<forall>i < length ff.
            ff' ! i = new_row (ff ! i) (id_source w (ids_drawn w + i))
                        (clock w (clock_reads w + i)) m i) \<and>
         distinct (map ID ff')"
proof -
  note U = UpdateFields_None [OF assms(1), unfolded assms(2)]
  have len: "length ff' = length ff" using U by simp
  have fb: "\<And>i. fresh_before [] ff i = min (length ff) i"
    by (simp add: fresh_before_def FindFieldByID_def)
  have nth: "\<forall>i < length ff.
      ff' ! i = new_row (ff ! i) (id_source w (ids_drawn w + i)) (clock w (clock_reads w + i)) m i"
  proof (intro allI impI)
    fix i assume i: "i < length ff"
    have "0 \<notin> ID ` set ([] :: ModuleField list)" by simp
    from reconciled_nth [OF this i, of w m hasRecords 0] U i
    show "ff' ! i = new_row (ff ! i) (id_source w (ids_drawn w + i)) (clock w (clock_reads w + i)) m i"
      by (simp add: FindFieldByID_def fb)
  qed
  have ids: "map ID ff' = map (id_source w) [ids_drawn w ..< ids_drawn w + length ff]"
    by (rule nth_equalityI) (simp_all add: len nth new_row_def)
  from assms(3) have dist: "distinct (map ID ff')"
    by (simp add: fresh_ids_def ids)
  have "set (map ID ff') = set (map (id_source w) [ids_drawn w ..< ids_drawn w + length ff])"
    by (simp only: ids)
  then have "ID ` set ff' = id_source w ` {ids_drawn w ..< ids_drawn w + length ff}"
    by simp
  with assms(3) have new: "ID ` set ff' \<inter> ID ` set (field_rows w) = {}"
    by (auto simp: fresh_ids_def)
  have rows: "field_rows w' = field_rows w @ ff'"
    using U by (simp add: foldl_replace_row untouched_fresh [OF new] written_distinct [OF dist])
  have "\<forall>i < length ff'. ModuleID (ff' ! i) = m \<and> Place (ff' ! i) = int i \<and> DeletedAt (ff' ! i) = None"
    using nth len by (simp add: new_row_def)
  from active_fields_append_new [OF assms(2) this] rows len nth dist show ?thesis by simp
qed

theorem UpdateFields_empty_module_witness:
  "active_fields (field_rows (snd (snd (UpdateFields example_store 12 example_new False)))) [12] =
     [new_row (new_field ''A'' ''text'') 1000 500 12 0,
      new_row (new_field ''B'' ''number'') 1001 501 12 1]"
proof -
  let ?u = "UpdateFields example_store 12 example_new False"
  have "fst ?u = None" by code_simp
  then have u: "?u = (None, fst (snd ?u), snd (snd ?u))" by (simp add: prod_eq_iff)
  have e: "active_fields (field_rows example_store) [12] = []" by code_simp
  have f: "fresh_ids example_store (length example_new)" by code_simp
  have v: "fst (snd ?u) =
     [new_row (new_field ''A'' ''text'') 1000 500 12 0,
      new_row (new_field ''B'' ''number'') 1001 501 12 1]"
    by code_simp
  from UpdateFields_empty_module [OF u e f] v show ?thesis by simp
qed

end
